theory Spec2Isabelle
  imports Complex_Main
begin

section \<open>Numbers, arrays and errors\<close>

text \<open>
  The notebook computes on numpy arrays of float64 samples. A float64 is a finite
  number, an infinity or a nan. The sum, difference, product and quotient of two finite
  numbers is the exact result rounded; the rounding is a parameter \<open>rd\<close> of every
  function that computes, and it may return an infinity (overflow). What is proved for
  every \<open>rd\<close> holds for the rounding of the machine. \<open>exact\<close> is the rounding that
  changes nothing, used to run the model; \<open>exact_at rd x\<close> says that \<open>rd\<close> leaves the
  number \<open>x\<close> as it is, which the machine does for every number a float64 can hold.
  The sign of a zero is not modelled: a zero is \<open>+0.0\<close>.

  The numbers a caller passes as configuration (pitch, rates, distances, coupling loss)
  are finite floats, and are reals here. A decimal literal of the source that a float
  cannot hold (\<open>0.9999\<close>, \<open>0.9\<close>) is rounded as a result is; the others (\<open>343.0\<close>,
  \<open>0.5\<close>, \<open>5.0\<close>, the integers) are the numbers they write. Python integers (buffer
  lengths, indices, delays) are \<open>int\<close>. An array is a list of samples; memory is not
  bounded, so an allocation succeeds for every length that is not negative.

  An exception of the source is a value \<open>Inl e\<close>; a normal return is \<open>Inr v\<close>.
\<close>

datatype error = ZeroDivisionError | ValueError | IndexError | OverflowError

datatype float64 = Num real | PInf | NInf | NaN

type_synonym rounding = "real \<Rightarrow> float64"

definition exact :: rounding where
  "exact x = Num x"

definition exact_at :: "rounding \<Rightarrow> real \<Rightarrow> bool" where
  "exact_at rd x \<longleftrightarrow> rd x = Num x"

text \<open>The arithmetic of float64 values. numpy raises nothing here: a division by zero
  gives an infinity, or nan for \<open>0 / 0\<close>; nan propagates.\<close>

fun fneg :: "float64 \<Rightarrow> float64" where
  "fneg (Num a) = Num (- a)"
| "fneg PInf = NInf"
| "fneg NInf = PInf"
| "fneg NaN = NaN"

fun fadd :: "rounding \<Rightarrow> float64 \<Rightarrow> float64 \<Rightarrow> float64" where
  "fadd rd (Num a) (Num b) = rd (a + b)"
| "fadd rd NaN b = NaN"
| "fadd rd a NaN = NaN"
| "fadd rd (Num a) b = b"
| "fadd rd a (Num b) = a"
| "fadd rd a b = (if a = b then a else NaN)"

definition fsub :: "rounding \<Rightarrow> float64 \<Rightarrow> float64 \<Rightarrow> float64" where
  "fsub rd a b = fadd rd a (fneg b)"

fun fmul :: "rounding \<Rightarrow> float64 \<Rightarrow> float64 \<Rightarrow> float64" where
  "fmul rd (Num a) (Num b) = rd (a * b)"
| "fmul rd NaN b = NaN"
| "fmul rd a NaN = NaN"
| "fmul rd (Num a) b = (if a = 0 then NaN else if 0 < a then b else fneg b)"
| "fmul rd a (Num b) = (if b = 0 then NaN else if 0 < b then a else fneg a)"
| "fmul rd a b = (if a = b then PInf else NInf)"

fun fdiv :: "rounding \<Rightarrow> float64 \<Rightarrow> float64 \<Rightarrow> float64" where
  "fdiv rd (Num a) (Num b) =
     (if b = 0 then (if a = 0 then NaN else if 0 < a then PInf else NInf)
      else rd (a / b))"
| "fdiv rd NaN b = NaN"
| "fdiv rd a NaN = NaN"
| "fdiv rd (Num a) b = Num 0"
| "fdiv rd a (Num b) = (if 0 \<le> b then a else fneg a)"
| "fdiv rd a b = NaN"

text \<open>\<open>a < b\<close> on float64 values: false whenever one of them is nan.\<close>

fun fless :: "float64 \<Rightarrow> float64 \<Rightarrow> bool" where
  "fless (Num a) (Num b) \<longleftrightarrow> a < b"
| "fless NaN b \<longleftrightarrow> False"
| "fless a NaN \<longleftrightarrow> False"
| "fless a NInf \<longleftrightarrow> False"
| "fless PInf b \<longleftrightarrow> False"
| "fless a b \<longleftrightarrow> True"

text \<open>Python's \<open>min(a, b)\<close> returns \<open>b\<close> when \<open>b < a\<close> and \<open>a\<close> otherwise.\<close>

definition py_min :: "float64 \<Rightarrow> float64 \<Rightarrow> float64" where
  "py_min a b = (if fless b a then b else a)"

text \<open>\<open>np.round\<close> rounds to the nearest integer and a tie to the even neighbour;
  \<open>np.ceil\<close> rounds up. Both leave an infinity and nan as they are.\<close>

definition round_half_even :: "real \<Rightarrow> int" where
  "round_half_even x =
     (let f = \<lfloor>x\<rfloor>; r = x - of_int f
      in if r < 1 / 2 then f
         else if 1 / 2 < r then f + 1
         else if even f then f else f + 1)"

fun np_round :: "float64 \<Rightarrow> float64" where
  "np_round (Num x) = Num (of_int (round_half_even x))"
| "np_round v = v"

fun np_ceil :: "float64 \<Rightarrow> float64" where
  "np_ceil (Num x) = Num (of_int \<lceil>x\<rceil>)"
| "np_ceil v = v"

text \<open>\<open>int(v)\<close> of a float truncates towards zero; it raises ValueError for nan and
  OverflowError for an infinity.\<close>

fun py_int :: "float64 \<Rightarrow> error + int" where
  "py_int (Num x) = Inr (if 0 \<le> x then \<lfloor>x\<rfloor> else \<lceil>x\<rceil>)"
| "py_int NaN = Inl ValueError"
| "py_int v = Inl OverflowError"

text \<open>\<open>x ** n\<close> of a Python float and a Python integer: 1 for \<open>n = 0\<close>, and
  otherwise the power, rounded. Python raises OverflowError when the power of a finite
  number overflows and ZeroDivisionError for a negative power of zero; the power of an
  infinity or of nan raises nothing.\<close>

fun py_pow :: "rounding \<Rightarrow> float64 \<Rightarrow> int \<Rightarrow> error + float64" where
  "py_pow rd (Num x) n =
     (if n = 0 then Inr (Num 1)
      else if x = 0 \<and> n < 0 then Inl ZeroDivisionError
      else case rd (x powi n) of
             PInf \<Rightarrow> Inl OverflowError
           | NInf \<Rightarrow> Inl OverflowError
           | v \<Rightarrow> Inr v)"
| "py_pow rd NaN n = Inr (if n = 0 then Num 1 else NaN)"
| "py_pow rd PInf n = Inr (if n = 0 then Num 1 else if 0 < n then PInf else Num 0)"
| "py_pow rd NInf n =
     Inr (if n = 0 then Num 1 else if n < 0 then Num 0 else if even n then PInf else NInf)"

text \<open>\<open>a[i]\<close> and \<open>a[i] = v\<close> on a one-dimensional numpy array: an index in
  \<open>[-len, len)\<close> is accepted, a negative one counts from the end.\<close>

definition np_index :: "float64 list \<Rightarrow> int \<Rightarrow> error + nat" where
  "np_index a i =
     (let n = int (length a)
      in if - n \<le> i \<and> i < n then Inr (nat (if i < 0 then n + i else i))
         else Inl IndexError)"

definition np_get :: "float64 list \<Rightarrow> int \<Rightarrow> error + float64" where
  "np_get a i = (case np_index a i of Inl e \<Rightarrow> Inl e | Inr k \<Rightarrow> Inr (a ! k))"

definition np_set :: "float64 list \<Rightarrow> int \<Rightarrow> float64 \<Rightarrow> error + float64 list" where
  "np_set a i v = (case np_index a i of Inl e \<Rightarrow> Inl e | Inr k \<Rightarrow> Inr (a[k := v]))"

text \<open>\<open>np.zeros(n)\<close> raises ValueError for a negative length.\<close>

definition np_zeros :: "int \<Rightarrow> error + float64 list" where
  "np_zeros n = (if n < 0 then Inl ValueError else Inr (replicate (nat n) (Num 0)))"

text \<open>Assigning a one-element array to a scalar slot (\<open>y[n] = array\<close>) takes its only
  element; an array of any other size is refused with ValueError.\<close>

definition np_item :: "float64 list \<Rightarrow> error + float64" where
  "np_item a = (case a of [v] \<Rightarrow> Inr v | _ \<Rightarrow> Inl ValueError)"

section \<open>The amplifier\<close>

text \<open>
  \<^verbatim>\<open>
  def amplify(x):
      TH = 0.9
      y = np.copy(x)
      y[y >  TH] =  TH
      y[y < -TH] = -TH
      return y
  \<close>
  \<open>y[mask] = v\<close> overwrites the elements selected by the mask. A comparison with nan
  is false, so a nan is selected by neither mask.
\<close>

definition TH :: "rounding \<Rightarrow> float64" where
  "TH rd = rd (9 / 10)"

definition mask_assign :: "(float64 \<Rightarrow> bool) \<Rightarrow> float64 \<Rightarrow> float64 list \<Rightarrow> float64 list" where
  "mask_assign p v y = map (\<lambda>e. if p e then v else e) y"

definition amplify :: "rounding \<Rightarrow> float64 list \<Rightarrow> float64 list" where
  "amplify rd x =
     (let y = x;
          y = mask_assign (\<lambda>e. fless (TH rd) e) (TH rd) y;
          y = mask_assign (\<lambda>e. fless e (fneg (TH rd))) (fneg (TH rd)) y
      in y)"

text \<open>
  The same function over an explicit store of arrays (an address is a position in the
  store), to say what happens to the argument: \<open>np.copy\<close> allocates a new array, and
  both masked assignments write to the copy.
\<close>

type_synonym store = "float64 list list"

definition np_copy :: "store \<Rightarrow> nat \<Rightarrow> store \<times> nat" where
  "np_copy h x = (h @ [h ! x], length h)"

definition amplify_store :: "rounding \<Rightarrow> store \<Rightarrow> nat \<Rightarrow> store \<times> nat" where
  "amplify_store rd h x =
     (let (h, y) = np_copy h x;
          h = h[y := mask_assign (\<lambda>e. fless (TH rd) e) (TH rd) (h ! y)];
          h = h[y := mask_assign (\<lambda>e. fless e (fneg (TH rd))) (fneg (TH rd)) (h ! y)]
      in (h, y))"

section \<open>The acoustic feedback channel\<close>

text \<open>
  \<^verbatim>\<open>
  class feedback:
      SPEED_OF_SOUND = 343.0 # m/s
      def __init__(self, max_distance_m = 5, fs=24000):
          self.L = int(np.ceil(max_distance_m / self.SPEED_OF_SOUND * fs));
          self.xbuf = np.zeros(self.L)     # circular buffer
          self.ix = 0

      def get(self, x, distance):
          d = int(np.ceil(distance / self.SPEED_OF_SOUND * fs))    # delay in samples
          self.xbuf[self.ix] = x
          x = self.xbuf[(self.L + self.ix - d) % self.L]
          self.ix = (self.ix + 1) % self.L
          return x / float(distance)
  \<close>
  The constructor's \<open>fs\<close> is its own parameter. The \<open>fs\<close> in \<open>get\<close> is not: the
  method has no such parameter and the object stores none, so it is the module's global
  \<open>fs\<close> (the rate of the wav file read at the top of the notebook). The file is not part
  of the sources, so the global is an argument of \<open>feedback_get\<close>.

  \<open>delay_samples rd fs distance\<close> is the expression
  \<open>int(np.ceil(distance / SPEED_OF_SOUND * fs))\<close> that both methods compute: a
  quotient, rounded; a product, rounded; the ceiling; the conversion to an integer.
\<close>

definition SPEED_OF_SOUND :: real where
  "SPEED_OF_SOUND = 343"

definition delay_samples :: "rounding \<Rightarrow> real \<Rightarrow> real \<Rightarrow> error + int" where
  "delay_samples rd fs distance =
     py_int (np_ceil (fmul rd (fdiv rd (Num distance) (Num SPEED_OF_SOUND)) (Num fs)))"

record feedback =
  f_L :: int
  f_xbuf :: "float64 list"
  f_ix :: int

definition feedback_init :: "rounding \<Rightarrow> real \<Rightarrow> real \<Rightarrow> error + feedback" where
  "feedback_init rd max_distance_m fs =
     (case delay_samples rd fs max_distance_m of
        Inl e \<Rightarrow> Inl e
      | Inr l \<Rightarrow>
          (case np_zeros l of
             Inl e \<Rightarrow> Inl e
           | Inr z \<Rightarrow> Inr \<lparr>f_L = l, f_xbuf = z, f_ix = 0\<rparr>))"

text \<open>The index \<open>get\<close> reads at, for a delay of \<open>d\<close> samples.\<close>

definition read_index :: "feedback \<Rightarrow> int \<Rightarrow> int" where
  "read_index self d = (f_L self + f_ix self - d) mod f_L self"

definition feedback_get ::
    "rounding \<Rightarrow> real \<Rightarrow> feedback \<Rightarrow> float64 \<Rightarrow> real \<Rightarrow> error + float64 \<times> feedback" where
  "feedback_get rd fs self x distance =
     (case delay_samples rd fs distance of
        Inl e \<Rightarrow> Inl e
      | Inr d \<Rightarrow>
          (case np_set (f_xbuf self) (f_ix self) x of
             Inl e \<Rightarrow> Inl e
           | Inr b \<Rightarrow>
               if f_L self = 0 then Inl ZeroDivisionError
               else (case np_get b (read_index self d) of
                       Inl e \<Rightarrow> Inl e
                     | Inr v \<Rightarrow>
                         let self = self\<lparr>f_xbuf := b, f_ix := (f_ix self + 1) mod f_L self\<rparr>
                         in Inr (fdiv rd v (Num distance), self))))"

text \<open>A sequence of calls of \<open>get\<close>, each with its sample and its distance; the first
  exception ends it.\<close>

fun feedback_gets ::
    "rounding \<Rightarrow> real \<Rightarrow> feedback \<Rightarrow> (float64 \<times> real) list \<Rightarrow> error + float64 list \<times> feedback" where
  "feedback_gets rd fs self [] = Inr ([], self)"
| "feedback_gets rd fs self (p # ps) =
     (case feedback_get rd fs self (fst p) (snd p) of
        Inl e \<Rightarrow> Inl e
      | Inr (v, self') \<Rightarrow>
          (case feedback_gets rd fs self' ps of
             Inl e \<Rightarrow> Inl e
           | Inr (vs, self'') \<Rightarrow> Inr (v # vs, self'')))"


text \<open>What holds of a channel between calls: a buffer of \<open>L \<ge> 1\<close> slots and a write
  index inside it.\<close>

definition feedback_inv :: "feedback \<Rightarrow> bool" where
  "feedback_inv self \<longleftrightarrow>
     1 \<le> f_L self \<and> int (length (f_xbuf self)) = f_L self
     \<and> 0 \<le> f_ix self \<and> f_ix self < f_L self"

section \<open>The guitar\<close>

text \<open>
  The guitar calls three functions of \<open>scipy.signal\<close>, a library that is not part of
  the sources: \<open>butter\<close> designs the lowpass, \<open>lfiltic\<close> makes its initial state and
  \<open>lfilter\<close> runs it, one sample per call. They are parameters of the model, collected
  in a record named as the import is; each may raise.
\<close>

record signal =
  butter :: "nat \<Rightarrow> float64 \<Rightarrow> error + float64 list \<times> float64 list"
  lfiltic :: "float64 list \<Rightarrow> float64 list \<Rightarrow> float64 list \<Rightarrow> error + float64 list"
  lfilter :: "float64 list \<Rightarrow> float64 list \<Rightarrow> float64 list \<Rightarrow> float64 list
                \<Rightarrow> error + float64 list \<times> float64 list"

text \<open>
  \<^verbatim>\<open>
  class guitar:
      def __init__(self, pitch=110, fs=24000):
          self.M = int(np.round(fs / pitch) )# fundamental period in samples
          self.R = 0.9999               # decay factor
          self.RM = self.R ** self.M
          self.ybuf = np.zeros(self.M)  # output buffer (circular)
          self.iy = 0                   # index into out buf
          self.xbuf = 0                 # input buffer (just one sample)
          self.bfb, self.bfa = signal.butter(6, min(0.5, 5.0 * pitch / fs))
          self.bfb *= 1000              # set a little gain
          self.bfs = signal.lfiltic(self.bfb, self.bfa, [0])
  \<close>
  Pitch and rate are Python numbers: Python raises ZeroDivisionError at \<open>fs / pitch\<close>
  for a zero pitch and at \<open>5.0 * pitch / fs\<close> for a zero rate. The statements run in
  the order written, so the first one that raises decides the exception.
\<close>

record guitar =
  g_M :: int
  g_R :: float64
  g_RM :: float64
  g_ybuf :: "float64 list"
  g_iy :: int
  g_xbuf :: float64
  g_bfb :: "float64 list"
  g_bfa :: "float64 list"
  g_bfs :: "float64 list"

definition guitar_init :: "rounding \<Rightarrow> signal \<Rightarrow> real \<Rightarrow> real \<Rightarrow> error + guitar" where
  "guitar_init rd sg pitch fs =
     (if pitch = 0 then Inl ZeroDivisionError
      else
        case py_int (np_round (fdiv rd (Num fs) (Num pitch))) of
          Inl e \<Rightarrow> Inl e
        | Inr m \<Rightarrow>
            (case py_pow rd (rd (9999 / 10000)) m of
               Inl e \<Rightarrow> Inl e
             | Inr rm \<Rightarrow>
                 (case np_zeros m of
                    Inl e \<Rightarrow> Inl e
                  | Inr yb \<Rightarrow>
                      if fs = 0 then Inl ZeroDivisionError
                      else (case butter sg 6
                                   (py_min (Num (1 / 2))
                                      (fdiv rd (fmul rd (Num 5) (Num pitch)) (Num fs))) of
                              Inl e \<Rightarrow> Inl e
                            | Inr (b, a) \<Rightarrow>
                                let b = map (\<lambda>c. fmul rd c (Num 1000)) b
                                in case lfiltic sg b a [Num 0] of
                                     Inl e \<Rightarrow> Inl e
                                   | Inr z \<Rightarrow>
                                       Inr \<lparr>g_M = m, g_R = rd (9999 / 10000), g_RM = rm,
                                            g_ybuf = yb, g_iy = 0, g_xbuf = Num 0,
                                            g_bfb = b, g_bfa = a, g_bfs = z\<rparr>))))"

text \<open>
  \<^verbatim>\<open>
      def play(self, x):
          y = np.zeros(len(x))
          for n in range(len(x)):
              # comb filter
              t = x[n] - self.R * self.xbuf + self.RM * self.ybuf[self.iy]
              self.ybuf[self.iy] = t
              self.iy = (self.iy + 1) % self.M
              self.xbuf = x[n]
              # lowpass filter, keep filter status for next sample
              y[n], self.bfs = signal.lfilter(self.bfb, self.bfa, [t], zi=self.bfs)
          return y
  \<close>
  The body of the loop is two stages, as its comments say: \<open>comb\<close> is the first four
  statements and \<open>lowpass\<close> the last.
\<close>

definition comb :: "rounding \<Rightarrow> guitar \<Rightarrow> float64 \<Rightarrow> error + float64 \<times> guitar" where
  "comb rd self xn =
     (case np_get (g_ybuf self) (g_iy self) of
        Inl e \<Rightarrow> Inl e
      | Inr v \<Rightarrow>
          let t = fadd rd (fsub rd xn (fmul rd (g_R self) (g_xbuf self)))
                    (fmul rd (g_RM self) v)
          in case np_set (g_ybuf self) (g_iy self) t of
               Inl e \<Rightarrow> Inl e
             | Inr yb \<Rightarrow>
                 if g_M self = 0 then Inl ZeroDivisionError
                 else Inr (t, self\<lparr>g_ybuf := yb,
                                    g_iy := (g_iy self + 1) mod g_M self,
                                    g_xbuf := xn\<rparr>))"

definition lowpass :: "signal \<Rightarrow> guitar \<Rightarrow> float64 \<Rightarrow> error + float64 \<times> guitar" where
  "lowpass sg self t =
     (case lfilter sg (g_bfb self) (g_bfa self) [t] (g_bfs self) of
        Inl e \<Rightarrow> Inl e
      | Inr (out, z) \<Rightarrow>
          (case np_item out of
             Inl e \<Rightarrow> Inl e
           | Inr yn \<Rightarrow> Inr (yn, self\<lparr>g_bfs := z\<rparr>)))"

fun play :: "rounding \<Rightarrow> signal \<Rightarrow> guitar \<Rightarrow> float64 list \<Rightarrow> error + float64 list \<times> guitar" where
  "play rd sg self [] = Inr ([], self)"
| "play rd sg self (xn # x) =
     (case comb rd self xn of
        Inl e \<Rightarrow> Inl e
      | Inr (t, self) \<Rightarrow>
          (case lowpass sg self t of
             Inl e \<Rightarrow> Inl e
           | Inr (yn, self) \<Rightarrow>
               (case play rd sg self x of
                  Inl e \<Rightarrow> Inl e
                | Inr (y, self) \<Rightarrow> Inr (yn # y, self))))"

text \<open>The comb stage alone over a sequence of samples: what \<open>play\<close> feeds to the
  lowpass, sample by sample.\<close>

fun combs :: "rounding \<Rightarrow> guitar \<Rightarrow> float64 list \<Rightarrow> error + float64 list \<times> guitar" where
  "combs rd self [] = Inr ([], self)"
| "combs rd self (xn # x) =
     (case comb rd self xn of
        Inl e \<Rightarrow> Inl e
      | Inr (t, self) \<Rightarrow>
          (case combs rd self x of
             Inl e \<Rightarrow> Inl e
           | Inr (ts, self) \<Rightarrow> Inr (t # ts, self)))"

text \<open>The lowpass stage alone over a sequence of comb outputs.\<close>

fun lowpasses :: "signal \<Rightarrow> guitar \<Rightarrow> float64 list \<Rightarrow> error + float64 list \<times> guitar" where
  "lowpasses sg self [] = Inr ([], self)"
| "lowpasses sg self (t # ts) =
     (case lowpass sg self t of
        Inl e \<Rightarrow> Inl e
      | Inr (yn, self) \<Rightarrow>
          (case lowpasses sg self ts of
             Inl e \<Rightarrow> Inl e
           | Inr (y, self) \<Rightarrow> Inr (yn # y, self)))"

text \<open>Two guitars with the same comb filter, and two with the same lowpass.\<close>

definition same_comb :: "guitar \<Rightarrow> guitar \<Rightarrow> bool" where
  "same_comb ga gb \<longleftrightarrow>
     g_M ga = g_M gb \<and> g_R ga = g_R gb \<and> g_RM ga = g_RM gb
     \<and> g_ybuf ga = g_ybuf gb \<and> g_iy ga = g_iy gb \<and> g_xbuf ga = g_xbuf gb"

definition same_lowpass :: "guitar \<Rightarrow> guitar \<Rightarrow> bool" where
  "same_lowpass ga gb \<longleftrightarrow>
     g_bfb ga = g_bfb gb \<and> g_bfa ga = g_bfa gb \<and> g_bfs ga = g_bfs gb"

text \<open>What holds of a guitar between calls: a period \<open>M \<ge> 1\<close>, a buffer of \<open>M\<close>
  slots and a write index inside it.\<close>

definition guitar_inv :: "guitar \<Rightarrow> bool" where
  "guitar_inv self \<longleftrightarrow>
     1 \<le> g_M self \<and> int (length (g_ybuf self)) = g_M self
     \<and> 0 \<le> g_iy self \<and> g_iy self < g_M self"

section \<open>The simulation loop\<close>

text \<open>
  \<^verbatim>\<open>
  g = guitar(110)    # the A string
  f = feedback()     # the feedback channel
  COUPLING_LOSS = 0.0001
  START_DISTANCE = 3
  END_DISTANCE = 0.05
  N = int(fs * 5)         # play for 5 seconds
  y = np.zeros(N)
  x = [1]            # the initial plucking
  for n in range(N):
      y[n] = amplify(g.play(x))
      x = [COUPLING_LOSS * f.get(y[n], START_DISTANCE if n < (1.5 * fs) else END_DISTANCE)]
  \<close>
  The state of the loop is the guitar, the channel and the one-element input \<open>x\<close>.
  One iteration is \<open>iteration\<close>; the coupling loss and the distance of each iteration
  are parameters, so that the loop can be run on other values than the notebook's.
\<close>

type_synonym loop_state = "guitar \<times> feedback \<times> float64 list"

definition iteration ::
    "rounding \<Rightarrow> signal \<Rightarrow> real \<Rightarrow> real \<Rightarrow> (nat \<Rightarrow> real) \<Rightarrow> nat \<Rightarrow> loop_state
      \<Rightarrow> error + float64 \<times> loop_state" where
  "iteration rd sg fs coupling_loss distance_at n st =
     (case st of (g, f, x) \<Rightarrow>
        (case play rd sg g x of
           Inl e \<Rightarrow> Inl e
         | Inr (out, g) \<Rightarrow>
             (case np_item (amplify rd out) of
                Inl e \<Rightarrow> Inl e
              | Inr yn \<Rightarrow>
                  (case feedback_get rd fs f yn (distance_at n) of
                     Inl e \<Rightarrow> Inl e
                   | Inr (v, f) \<Rightarrow> Inr (yn, (g, f, [fmul rd (Num coupling_loss) v]))))))"

fun loop ::
    "rounding \<Rightarrow> signal \<Rightarrow> real \<Rightarrow> real \<Rightarrow> (nat \<Rightarrow> real) \<Rightarrow> nat list \<Rightarrow> loop_state
      \<Rightarrow> error + float64 list \<times> loop_state" where
  "loop rd sg fs coupling_loss distance_at [] st = Inr ([], st)"
| "loop rd sg fs coupling_loss distance_at (n # ns) st =
     (case iteration rd sg fs coupling_loss distance_at n st of
        Inl e \<Rightarrow> Inl e
      | Inr (yn, st) \<Rightarrow>
          (case loop rd sg fs coupling_loss distance_at ns st of
             Inl e \<Rightarrow> Inl e
           | Inr (y, st) \<Rightarrow> Inr (yn # y, st)))"

text \<open>The distance of iteration \<open>n\<close> in the notebook: \<open>n\<close> is compared with the
  product \<open>1.5 * fs\<close>, a float.\<close>

definition distance_schedule :: "rounding \<Rightarrow> real \<Rightarrow> real \<Rightarrow> real \<Rightarrow> nat \<Rightarrow> real" where
  "distance_schedule rd fs start_distance end_distance n =
     (if fless (Num (real n)) (fmul rd (Num (3 / 2)) (Num fs)) then start_distance
      else end_distance)"

text \<open>A run: a guitar of the given pitch and rate, a channel of the given maximal
  distance and rate, the plucking \<open>x0\<close>, and \<open>N\<close> iterations. \<open>fs\<close> is the global rate
  that \<open>get\<close> reads.\<close>

definition simulation ::
    "rounding \<Rightarrow> signal \<Rightarrow> real \<Rightarrow> real \<Rightarrow> real \<Rightarrow> real \<Rightarrow> real \<Rightarrow> real \<Rightarrow> (nat \<Rightarrow> real) \<Rightarrow> nat
      \<Rightarrow> float64 \<Rightarrow> error + float64 list \<times> loop_state" where
  "simulation rd sg fs pitch g_fs max_distance_m f_fs coupling_loss distance_at N x0 =
     (case guitar_init rd sg pitch g_fs of
        Inl e \<Rightarrow> Inl e
      | Inr g \<Rightarrow>
          (case feedback_init rd max_distance_m f_fs of
             Inl e \<Rightarrow> Inl e
           | Inr f \<Rightarrow> loop rd sg fs coupling_loss distance_at [0 ..< N] (g, f, [x0])))"

text \<open>The lowpass never fails on the states it reaches: \<open>I\<close> holds of them, and from a
  state with \<open>I\<close> a call of \<open>lfilter\<close> on one sample returns one sample and a state
  with \<open>I\<close>.\<close>

definition lowpass_closed ::
    "signal \<Rightarrow> float64 list \<Rightarrow> float64 list \<Rightarrow> (float64 list \<Rightarrow> bool) \<Rightarrow> bool" where
  "lowpass_closed sg b a I \<longleftrightarrow>
     (\<forall>z t. I z \<longrightarrow> (\<exists>yn z'. lfilter sg b a [t] z = Inr ([yn], z') \<and> I z'))"

text \<open>What holds of the state of the loop between iterations, for a lowpass with
  coefficients \<open>b\<close> and \<open>a\<close>.\<close>

definition loop_inv ::
    "(float64 list \<Rightarrow> bool) \<Rightarrow> float64 list \<Rightarrow> float64 list \<Rightarrow> loop_state \<Rightarrow> bool" where
  "loop_inv I b a st \<longleftrightarrow>
     (case st of (g, f, x) \<Rightarrow>
        guitar_inv g \<and> feedback_inv f \<and> length x = 1
        \<and> g_bfb g = b \<and> g_bfa g = a \<and> I (g_bfs g))"

text \<open>A circular buffer of \<open>l\<close> slots, zero at first, into which the values \<open>ws\<close> were
  written one after the other at the slots \<open>0, 1, \<dots> mod l\<close>: each of the last \<open>l\<close>
  values is at its slot and every slot not yet written is zero.\<close>

definition circ :: "nat \<Rightarrow> float64 list \<Rightarrow> float64 list \<Rightarrow> bool" where
  "circ l ws buf \<longleftrightarrow>
     length buf = l
     \<and> (\<forall>k < length ws. length ws \<le> k + l \<longrightarrow> buf ! (k mod l) = ws ! k)
     \<and> (\<forall>j < l. length ws \<le> j \<longrightarrow> buf ! j = Num 0)"

section \<open>A concrete lowpass\<close>

text \<open>
  To run the model, the three library functions need values. \<open>direct_form rd b a\<close> is a
  recursive filter in direct form II transposed, the structure \<open>lfilter\<close> is documented
  to implement, with the coefficients \<open>b\<close> and \<open>a\<close> for every accepted cutoff:
  the state \<open>z\<close> has one entry less than the coefficient lists, one sample \<open>x\<close> gives
  \<open>y = (b\<^sub>0 x + z\<^sub>0) / a\<^sub>0\<close>, and the new state is
  \<open>z\<^sub>i' = (b\<^sub>i\<^sub>+\<^sub>1 x - a\<^sub>i\<^sub>+\<^sub>1 y) / a\<^sub>0 + z\<^sub>i\<^sub>+\<^sub>1\<close> with \<open>z\<close> extended by a zero.
\<close>

definition df2t_step ::
    "rounding \<Rightarrow> float64 list \<Rightarrow> float64 list \<Rightarrow> float64 list \<Rightarrow> float64
      \<Rightarrow> float64 \<times> float64 list" where
  "df2t_step rd b a z x =
     (let zs = z @ [Num 0];
          y = fdiv rd (fadd rd (fmul rd (hd b) x) (hd zs)) (hd a)
      in (y, map (\<lambda>(bi, ai, zi).
                    fadd rd (fdiv rd (fsub rd (fmul rd bi x) (fmul rd ai y)) (hd a)) zi)
               (zip (tl b) (zip (tl a) (tl zs)))))"

fun df2t_run ::
    "rounding \<Rightarrow> float64 list \<Rightarrow> float64 list \<Rightarrow> float64 list \<Rightarrow> float64 list
      \<Rightarrow> float64 list \<times> float64 list" where
  "df2t_run rd b a z [] = ([], z)"
| "df2t_run rd b a z (x # xs) =
     (case df2t_step rd b a z x of (y, z) \<Rightarrow>
        (case df2t_run rd b a z xs of (ys, z) \<Rightarrow> (y # ys, z)))"

definition df2t_lfilter ::
    "rounding \<Rightarrow> float64 list \<Rightarrow> float64 list \<Rightarrow> float64 list \<Rightarrow> float64 list
      \<Rightarrow> error + float64 list \<times> float64 list" where
  "df2t_lfilter rd b a x zi =
     (if length a \<noteq> length b \<or> a = [] \<or> hd a = Num 0 \<or> Suc (length zi) \<noteq> length b
      then Inl ValueError
      else Inr (df2t_run rd b a zi x))"

definition direct_form :: "rounding \<Rightarrow> float64 list \<Rightarrow> float64 list \<Rightarrow> signal" where
  "direct_form rd b a =
     \<lparr>butter = (\<lambda>n wn. if fless (Num 0) wn \<and> fless wn (Num 1) then Inr (b, a)
                       else Inl ValueError),
      lfiltic = (\<lambda>b a y. Inr (replicate (max (length a) (length b) - 1) (Num 0))),
      lfilter = df2t_lfilter rd\<rparr>"

section \<open>Properties of the arithmetic\<close>

lemma py_int_of_int: "py_int (Num (of_int n)) = Inr n"
  by simp

lemma py_int_ceil: "py_int (np_ceil (Num x)) = Inr \<lceil>x\<rceil>"
  by simp

lemma py_int_round: "py_int (np_round (Num x)) = Inr (round_half_even x)"
  by simp

lemma py_int_Inr: "py_int v = Inr n \<Longrightarrow> \<exists>x. v = Num x"
  by (cases v) simp_all

lemma np_ceil_Num: "np_ceil v = Num y \<Longrightarrow> \<exists>x. v = Num x \<and> y = of_int \<lceil>x\<rceil>"
  by (cases v) auto

lemma delay_samples_Inr:
  "delay_samples rd fs distance = Inr d \<longleftrightarrow>
     (\<exists>v. fmul rd (fdiv rd (Num distance) (Num SPEED_OF_SOUND)) (Num fs) = Num v \<and> d = \<lceil>v\<rceil>)"
proof
  assume a: "delay_samples rd fs distance = Inr d"
  obtain w where w: "np_ceil (fmul rd (fdiv rd (Num distance) (Num SPEED_OF_SOUND)) (Num fs)) = Num w"
    using py_int_Inr a unfolding delay_samples_def by blast
  obtain v where v: "fmul rd (fdiv rd (Num distance) (Num SPEED_OF_SOUND)) (Num fs) = Num v"
    using np_ceil_Num [OF w] by blast
  have "d = \<lceil>v\<rceil>"
    using a unfolding delay_samples_def v py_int_ceil by simp
  then show "\<exists>v. fmul rd (fdiv rd (Num distance) (Num SPEED_OF_SOUND)) (Num fs) = Num v \<and> d = \<lceil>v\<rceil>"
    using v by blast
next
  assume "\<exists>v. fmul rd (fdiv rd (Num distance) (Num SPEED_OF_SOUND)) (Num fs) = Num v \<and> d = \<lceil>v\<rceil>"
  then show "delay_samples rd fs distance = Inr d"
    unfolding delay_samples_def by auto
qed

lemma delay_samples_exact:
  "delay_samples exact fs distance = Inr \<lceil>distance / SPEED_OF_SOUND * fs\<rceil>"
  by (simp add: delay_samples_def exact_def SPEED_OF_SOUND_def)

section \<open>Properties of the amplifier\<close>

lemma amplify_steps:
  "amplify rd x =
     map (\<lambda>e. if fless (if fless (TH rd) e then TH rd else e) (fneg (TH rd))
               then fneg (TH rd)
               else if fless (TH rd) e then TH rd else e) x"
  by (simp add: amplify_def mask_assign_def)

lemma amplify_length: "length (amplify rd x) = length x"
  by (simp add: amplify_steps)

lemma amplify_map:
  assumes "TH rd = Num th" and "0 \<le> th"
  shows "amplify rd (map Num x) = map (\<lambda>e. Num (max (- th) (min th e))) x"
  using assms(2) by (auto simp add: amplify_steps assms(1) max_def min_def)

lemma amplify_nonfinite:
  assumes "TH rd = Num th" and "0 \<le> th"
  shows "amplify rd [PInf, NInf, NaN] = [Num th, Num (- th), NaN]"
  using assms(2) by (simp add: amplify_steps assms(1))

lemma amplify_store_eq:
  "x < length h \<Longrightarrow> amplify_store rd h x = (h @ [amplify rd (h ! x)], length h)"
  by (simp add: amplify_store_def np_copy_def amplify_def Let_def nth_append)

text \<open>
  Claim C5. The threshold \<open>th\<close> is the float of the literal \<open>0.9\<close>, a finite number
  that is not negative; without rounding it is 0.9. For every array of finite samples,
  each element of \<open>amplify x\<close> is \<open>max (-th) (min th e)\<close> of the corresponding element
  \<open>e\<close>; so it lies in \<open>[-th, th]\<close>, equals \<open>e\<close> whenever \<open>|e| \<le> th\<close>, and is
  monotone in \<open>e\<close>. Of the values that are not finite, the infinities are clipped and
  nan is returned as it is. The argument array is not modified: the result is a new
  array of the store, and the store still holds the argument unchanged at its address.
\<close>

theorem amplify_clip:
  "(TH rd = Num th \<and> 0 \<le> th \<longrightarrow>
      amplify rd (map Num x) = map (\<lambda>e. Num (max (- th) (min th e))) x
      \<and> (\<forall>i < length x. \<exists>v. amplify rd (map Num x) ! i = Num v \<and> - th \<le> v \<and> v \<le> th)
      \<and> (\<forall>i < length x. \<bar>x ! i\<bar> \<le> th \<longrightarrow> amplify rd (map Num x) ! i = Num (x ! i))
      \<and> (\<forall>a b. a \<le> b \<longrightarrow>
            (\<exists>u v. amplify rd [Num a] = [Num u] \<and> amplify rd [Num b] = [Num v] \<and> u \<le> v))
      \<and> amplify rd [PInf, NInf, NaN] = [Num th, Num (- th), NaN])
   \<and> (\<forall>h k. k < length h \<longrightarrow>
         (case amplify_store rd h k of (h', y) \<Rightarrow>
            h' ! y = amplify rd (h ! k) \<and> y \<noteq> k \<and> h' ! k = h ! k
            \<and> (\<forall>j < length h. h' ! j = h ! j)))
   \<and> TH exact = Num (9 / 10)
   \<and> amplify exact (map Num x) = map (\<lambda>e. Num (max (- (9 / 10)) (min (9 / 10) e))) x
   \<and> (\<forall>i < length x. \<exists>v. amplify exact (map Num x) ! i = Num v
         \<and> - (9 / 10) \<le> v \<and> v \<le> 9 / 10)
   \<and> (\<forall>i < length x. \<bar>x ! i\<bar> \<le> 9 / 10 \<longrightarrow> amplify exact (map Num x) ! i = Num (x ! i))
   \<and> (\<forall>a b. a \<le> b \<longrightarrow>
         (\<exists>u v. amplify exact [Num a] = [Num u] \<and> amplify exact [Num b] = [Num v] \<and> u \<le> v))"
proof -
  have e: "TH exact = Num (9 / 10)"
    by (simp add: TH_def exact_def)
  have p: "amplify rd (map Num x) = map (\<lambda>e. Num (max (- th) (min th e))) x
        \<and> (\<forall>i < length x. \<exists>v. amplify rd (map Num x) ! i = Num v \<and> - th \<le> v \<and> v \<le> th)
        \<and> (\<forall>i < length x. \<bar>x ! i\<bar> \<le> th \<longrightarrow> amplify rd (map Num x) ! i = Num (x ! i))
        \<and> (\<forall>a b. a \<le> b \<longrightarrow>
              (\<exists>u v. amplify rd [Num a] = [Num u] \<and> amplify rd [Num b] = [Num v] \<and> u \<le> v))
        \<and> amplify rd [PInf, NInf, NaN] = [Num th, Num (- th), NaN]"
    if t: "TH rd = Num th" and th: "0 \<le> th" for rd th
  proof -
    note m = amplify_map [OF t th]
    have range: "\<forall>i < length x. \<exists>v. amplify rd (map Num x) ! i = Num v \<and> - th \<le> v \<and> v \<le> th"
      using th by (simp add: m max_def min_def)
    have ident: "\<forall>i < length x. \<bar>x ! i\<bar> \<le> th \<longrightarrow> amplify rd (map Num x) ! i = Num (x ! i)"
      by (auto simp add: m max_def min_def)
    have mono: "\<forall>a b. a \<le> b \<longrightarrow>
           (\<exists>u v. amplify rd [Num a] = [Num u] \<and> amplify rd [Num b] = [Num v] \<and> u \<le> v)"
      using m [of "[_]"] by (auto simp add: max_def min_def)
    show ?thesis
      using m [of x] range ident mono amplify_nonfinite [OF t th] by blast
  qed
  have st: "\<forall>h k. k < length h \<longrightarrow>
         (case amplify_store rd h k of (h', y) \<Rightarrow>
            h' ! y = amplify rd (h ! k) \<and> y \<noteq> k \<and> h' ! k = h ! k
            \<and> (\<forall>j < length h. h' ! j = h ! j))"
    by (simp add: amplify_store_eq nth_append)
  have th: "(0 :: real) \<le> 9 / 10"
    by simp
  show ?thesis
    using e p [of rd th] p [OF e th] st by blast
qed

theorem amplify_clip_witness:
  "TH exact = Num (9 / 10)
   \<and> amplify exact [Num 2, Num (- 3), Num (1 / 2)]
       = [Num (9 / 10), Num (- (9 / 10)), Num (1 / 2)]
   \<and> amplify_store exact [[Num 2, Num (- 3), Num (1 / 2)]] 0
       = ([[Num 2, Num (- 3), Num (1 / 2)], [Num (9 / 10), Num (- (9 / 10)), Num (1 / 2)]], 1)"
proof -
  note t = amplify_clip [of exact "9 / 10" "[2, - 3, 1 / 2]"]
  have e: "TH exact = Num (9 / 10)"
    using t by blast
  have "amplify exact (map Num [2, - 3, 1 / 2])
      = map (\<lambda>e. Num (max (- (9 / 10)) (min (9 / 10) e))) [2, - 3, 1 / 2]"
    using t [THEN conjunct1] e by simp
  then have a: "amplify exact [Num 2, Num (- 3), Num (1 / 2)]
      = [Num (9 / 10), Num (- (9 / 10)), Num (1 / 2)]"
    by simp
  have "amplify_store exact [[Num 2, Num (- 3), Num (1 / 2)]] 0
      = ([[Num 2, Num (- 3), Num (1 / 2)]]
           @ [amplify exact ([[Num 2, Num (- 3), Num (1 / 2)]] ! 0)], 1)"
    by (simp add: amplify_store_eq)
  with e a show ?thesis by simp
qed

section \<open>Properties of the feedback channel\<close>

lemma np_index_in_range:
  "0 \<le> i \<Longrightarrow> i < int (length a) \<Longrightarrow> np_index a i = Inr (nat i)"
  by (simp add: np_index_def)

lemma np_get_in_range:
  "0 \<le> i \<Longrightarrow> i < int (length a) \<Longrightarrow> np_get a i = Inr (a ! nat i)"
  by (simp add: np_get_def np_index_in_range)

lemma np_set_in_range:
  "0 \<le> i \<Longrightarrow> i < int (length a) \<Longrightarrow> np_set a i v = Inr (a[nat i := v])"
  by (simp add: np_set_def np_index_in_range)

lemma np_index_empty: "np_index [] i = Inl IndexError"
  by (simp add: np_index_def)

lemma read_index_range:
  "1 \<le> f_L self \<Longrightarrow> 0 \<le> read_index self d \<and> read_index self d < f_L self"
  by (simp add: read_index_def)

lemma feedback_init_eq:
  "feedback_init rd m fs = Inr self \<Longrightarrow>
     delay_samples rd fs m = Inr (f_L self) \<and> 0 \<le> f_L self
     \<and> f_xbuf self = replicate (nat (f_L self)) (Num 0) \<and> f_ix self = 0"
  by (auto simp add: feedback_init_def np_zeros_def split: sum.splits if_splits)

lemma feedback_init_inv:
  "feedback_init rd m fs = Inr self \<Longrightarrow> 1 \<le> f_L self \<Longrightarrow> feedback_inv self"
  using feedback_init_eq [of rd m fs self] by (simp add: feedback_inv_def)

lemma feedback_get_ok:
  assumes "feedback_inv self" and "delay_samples rd fs distance = Inr d"
  shows "feedback_get rd fs self x distance =
     Inr (fdiv rd ((f_xbuf self)[nat (f_ix self) := x] ! nat (read_index self d))
            (Num distance),
          self\<lparr>f_xbuf := (f_xbuf self)[nat (f_ix self) := x],
               f_ix := (f_ix self + 1) mod f_L self\<rparr>)"
proof -
  have l: "1 \<le> f_L self" and len: "int (length (f_xbuf self)) = f_L self"
    and i: "0 \<le> f_ix self" "f_ix self < f_L self"
    using assms(1) by (simp_all add: feedback_inv_def)
  have s: "np_set (f_xbuf self) (f_ix self) x = Inr ((f_xbuf self)[nat (f_ix self) := x])"
    using i len by (simp add: np_set_in_range)
  have r: "0 \<le> read_index self d" "read_index self d < f_L self"
    using read_index_range [OF l] by simp_all
  have g: "np_get ((f_xbuf self)[nat (f_ix self) := x]) (read_index self d)
         = Inr ((f_xbuf self)[nat (f_ix self) := x] ! nat (read_index self d))"
    using r len by (simp add: np_get_in_range)
  show ?thesis
    using l by (simp add: feedback_get_def Let_def assms(2) s g)
qed

lemma feedback_get_delay:
  assumes "feedback_get rd fs self x distance = Inr (v, self')"
  shows "\<exists>d. delay_samples rd fs distance = Inr d"
  using assms by (auto simp add: feedback_get_def split: sum.splits)

lemma feedback_get_inv:
  assumes "feedback_inv self" and "feedback_get rd fs self x distance = Inr (v, self')"
  shows "feedback_inv self' \<and> f_L self' = f_L self"
proof -
  obtain d where d: "delay_samples rd fs distance = Inr d"
    using feedback_get_delay [OF assms(2)] by blast
  show ?thesis
    using assms feedback_get_ok [OF assms(1) d, of x]
    by (auto simp add: feedback_inv_def)
qed


text \<open>
  Claim C3, as the code has it. \<open>get\<close> checks nothing about the delay: on a channel with
  at least one slot it returns normally for every delay \<open>d\<close> it computes, in \<open>[0, L)\<close>
  or not, reading the slot \<open>(L + ix - d) mod L\<close>, which is always inside the buffer.
  The delay is the ceiling of the product as the floats give it. (The only exceptions of
  \<open>get\<close> on such a channel come from \<open>int\<close>, when that product is not finite.)
\<close>

theorem feedback_get_wraps:
  assumes "feedback_inv self" and "delay_samples rd fs distance = Inr d"
  shows "0 \<le> read_index self d \<and> read_index self d < f_L self
     \<and> feedback_get rd fs self x distance =
         Inr (fdiv rd ((f_xbuf self)[nat (f_ix self) := x] ! nat (read_index self d))
                (Num distance),
              self\<lparr>f_xbuf := (f_xbuf self)[nat (f_ix self) := x],
                   f_ix := (f_ix self + 1) mod f_L self\<rparr>)
     \<and> (\<exists>v. fmul rd (fdiv rd (Num distance) (Num SPEED_OF_SOUND)) (Num fs) = Num v
            \<and> d = \<lceil>v\<rceil>)"
proof -
  have "1 \<le> f_L self"
    using assms(1) by (simp add: feedback_inv_def)
  then show ?thesis
    using read_index_range [of self] feedback_get_ok [OF assms]
      assms(2) [unfolded delay_samples_Inr] by simp
qed

theorem feedback_get_wraps_witness:
  "feedback_inv \<lparr>f_L = 3, f_xbuf = [Num 5, Num 6, Num 7], f_ix = 1\<rparr>
   \<and> delay_samples exact 24000 1 = Inr 70
   \<and> feedback_get exact 24000 \<lparr>f_L = 3, f_xbuf = [Num 5, Num 6, Num 7], f_ix = 1\<rparr> (Num 8) 1 =
       Inr (Num 5, \<lparr>f_L = 3, f_xbuf = [Num 5, Num 8, Num 7], f_ix = 2\<rparr>)"
proof -
  have i: "feedback_inv \<lparr>f_L = 3, f_xbuf = [Num 5, Num 6, Num 7], f_ix = 1\<rparr>"
    by (simp add: feedback_inv_def)
  have d: "delay_samples exact 24000 1 = Inr 70"
    by (simp add: delay_samples_exact SPEED_OF_SOUND_def)
  show ?thesis
    using i d feedback_get_wraps [OF i d, of "Num 8"]
    by (simp add: read_index_def exact_def)
qed

text \<open>A channel made for at most one metre at 24000 Hz has 70 slots. A push from 1000
  metres asks for a delay of 69971 samples, far outside \<open>[0, 70)\<close>, and returns the
  content of slot 29 divided by 1000: no error.\<close>

theorem feedback_get_out_of_range_counterexample:
  "feedback_init exact 1 24000 = Inr \<lparr>f_L = 70, f_xbuf = replicate 70 (Num 0), f_ix = 0\<rparr>
   \<and> delay_samples exact 24000 1000 = Inr 69971
   \<and> read_index \<lparr>f_L = 70, f_xbuf = replicate 70 (Num 0), f_ix = 0\<rparr> 69971 = 29
   \<and> feedback_get exact 24000 \<lparr>f_L = 70, f_xbuf = replicate 70 (Num 0), f_ix = 0\<rparr> (Num 1) 1000 =
       Inr (Num 0, \<lparr>f_L = 70, f_xbuf = (replicate 70 (Num 0))[0 := Num 1], f_ix = 1\<rparr>)"
  by (simp add: feedback_init_def feedback_get_def delay_samples_exact SPEED_OF_SOUND_def
      np_zeros_def np_set_def np_get_def np_index_def read_index_def exact_def)

section \<open>Properties of the guitar\<close>

lemma guitar_init_eq:
  assumes "guitar_init rd sg pitch fs = Inr self"
  shows "pitch \<noteq> 0 \<and> fs \<noteq> 0
     \<and> py_int (np_round (fdiv rd (Num fs) (Num pitch))) = Inr (g_M self) \<and> 0 \<le> g_M self
     \<and> g_R self = rd (9999 / 10000) \<and> py_pow rd (g_R self) (g_M self) = Inr (g_RM self)
     \<and> g_ybuf self = replicate (nat (g_M self)) (Num 0) \<and> g_iy self = 0
     \<and> g_xbuf self = Num 0"
  using assms
  by (auto simp add: guitar_init_def np_zeros_def Let_def
      split: if_splits sum.splits prod.splits)

lemma guitar_init_inv:
  "guitar_init rd sg pitch fs = Inr self \<Longrightarrow> 1 \<le> g_M self \<Longrightarrow> guitar_inv self"
  using guitar_init_eq [of rd sg pitch fs self] by (simp add: guitar_inv_def)

lemma comb_ok:
  assumes "guitar_inv self"
  shows "comb rd self xn =
     Inr (fadd rd (fsub rd xn (fmul rd (g_R self) (g_xbuf self)))
            (fmul rd (g_RM self) (g_ybuf self ! nat (g_iy self))),
          self\<lparr>g_ybuf := (g_ybuf self)
                   [nat (g_iy self) :=
                      fadd rd (fsub rd xn (fmul rd (g_R self) (g_xbuf self)))
                        (fmul rd (g_RM self) (g_ybuf self ! nat (g_iy self)))],
               g_iy := (g_iy self + 1) mod g_M self,
               g_xbuf := xn\<rparr>)"
proof -
  have m: "1 \<le> g_M self" and len: "int (length (g_ybuf self)) = g_M self"
    and i: "0 \<le> g_iy self" "g_iy self < g_M self"
    using assms by (simp_all add: guitar_inv_def)
  have g: "np_get (g_ybuf self) (g_iy self) = Inr (g_ybuf self ! nat (g_iy self))"
    using i len by (simp add: np_get_in_range)
  have s: "np_set (g_ybuf self) (g_iy self) v = Inr ((g_ybuf self)[nat (g_iy self) := v])" for v
    using i len by (simp add: np_set_in_range)
  show ?thesis
    using m by (simp add: comb_def g s Let_def)
qed

lemma comb_inv:
  assumes "guitar_inv self" and "comb rd self xn = Inr (t, self')"
  shows "guitar_inv self' \<and> g_M self' = g_M self \<and> g_R self' = g_R self
     \<and> g_RM self' = g_RM self \<and> g_bfb self' = g_bfb self \<and> g_bfa self' = g_bfa self
     \<and> g_bfs self' = g_bfs self"
  using assms(2) assms(1) unfolding comb_ok [OF assms(1)]
  by (auto simp add: guitar_inv_def)

lemma comb_empty: "g_ybuf self = [] \<Longrightarrow> comb rd self xn = Inl IndexError"
  by (simp add: comb_def np_get_def np_index_empty)

lemma comb_first_call:
  assumes "comb rd self xn = Inr (t, self')" and "0 \<le> g_M self"
    and "int (length (g_ybuf self)) = g_M self" and "g_iy self = 0"
  shows "guitar_inv self"
proof -
  have "g_ybuf self \<noteq> []"
    using assms(1) comb_empty [of self rd xn] by auto
  then have "1 \<le> int (length (g_ybuf self))"
    by (cases "g_ybuf self") simp_all
  then show ?thesis
    using assms(2-4) by (simp add: guitar_inv_def)
qed

lemma lowpass_fields:
  assumes "lowpass sg self t = Inr (yn, self')"
  shows "self' = self\<lparr>g_bfs := g_bfs self'\<rparr>"
  using assms by (auto simp add: lowpass_def split: sum.splits prod.splits)

lemma lowpass_inv:
  assumes "guitar_inv self" and "lowpass sg self t = Inr (yn, self')"
  shows "guitar_inv self' \<and> g_M self' = g_M self \<and> g_R self' = g_R self
     \<and> g_RM self' = g_RM self \<and> g_bfb self' = g_bfb self \<and> g_bfa self' = g_bfa self"
proof -
  have "self' = self\<lparr>g_bfs := g_bfs self'\<rparr>"
    using assms(2) by (rule lowpass_fields)
  then have "g_M self' = g_M self \<and> g_ybuf self' = g_ybuf self \<and> g_iy self' = g_iy self
      \<and> g_R self' = g_R self \<and> g_RM self' = g_RM self \<and> g_bfb self' = g_bfb self
      \<and> g_bfa self' = g_bfa self"
    by (metis guitar.select_convs guitar.surjective guitar.update_convs(9))
  then show ?thesis
    using assms(1) by (simp add: guitar_inv_def)
qed


lemma fdiv_negated: "b \<noteq> 0 \<Longrightarrow> fdiv rd (fneg a) (Num (- b)) = fdiv rd a (Num b)"
  by (cases a) simp_all

lemma guitar_init_negated:
  assumes "rd (- (5 * pitch)) = fneg (rd (5 * pitch))"
  shows "guitar_init rd sg (- pitch) (- fs) = guitar_init rd sg pitch fs"
proof (cases "pitch = 0")
  case True
  then show ?thesis
    by (simp add: guitar_init_def)
next
  case p: False
  have q: "fdiv rd (Num (- fs)) (Num (- pitch)) = fdiv rd (Num fs) (Num pitch)"
    using p by simp
  show ?thesis
  proof (cases "fs = 0")
    case True
    then show ?thesis
      using p by (simp add: guitar_init_def split: sum.splits)
  next
    case False
    have "fmul rd (Num 5) (Num (- pitch)) = fneg (fmul rd (Num 5) (Num pitch))"
      using assms by simp
    then have w: "fdiv rd (fmul rd (Num 5) (Num (- pitch))) (Num (- fs))
        = fdiv rd (fmul rd (Num 5) (Num pitch)) (Num fs)"
      using fdiv_negated [OF False] by simp
    have z: "(- pitch = 0) = (pitch = 0)" "(- fs = 0) = (fs = 0)"
      by simp_all
    show ?thesis
      unfolding guitar_init_def q w z by (rule refl)
  qed
qed

lemma py_pow_error:
  assumes "py_pow rd (Num r) m = Inl e" and "r \<noteq> 0"
  shows "e = OverflowError"
  using assms by (auto split: float64.splits if_splits)

lemma guitar_init_negative_period:
  assumes "pitch \<noteq> 0" and "py_int (np_round (fdiv rd (Num fs) (Num pitch))) = Inr m"
    and "m < 0" and "rd (9999 / 10000) = Num r" and "r \<noteq> 0"
  shows "guitar_init rd sg pitch fs =
     (case py_pow rd (Num r) m of Inl e \<Rightarrow> Inl OverflowError | Inr rm \<Rightarrow> Inl ValueError)"
  using assms py_pow_error [of rd r m]
  by (auto simp add: guitar_init_def np_zeros_def split: sum.splits)

text \<open>
  Claim C7, as the code has it. The constructor validates nothing itself. A zero pitch
  fails with ZeroDivisionError at \<open>fs / pitch\<close>, and a zero rate at
  \<open>5.0 * pitch / fs\<close> (the period is then 0, and the statements before the division
  pass). A negative rounded period fails with OverflowError when \<open>0.9999 ** M\<close>
  overflows, and otherwise with ValueError at the allocation of the buffer. Pitch and
  rate enter only through \<open>fs / pitch\<close> and \<open>5.0 * pitch / fs\<close>, so a negative pitch
  with a negative rate constructs exactly what their absolute values do. Of the
  rounding this uses what the machine does: zero is left as it is, the float of the
  literal \<open>0.9999\<close> is finite and not zero, and a product and its negation round to
  floats that are the negation of each other.
\<close>

theorem guitar_init_failures:
  "guitar_init rd sg 0 fs = Inl ZeroDivisionError
   \<and> (pitch \<noteq> 0 \<and> exact_at rd 0 \<longrightarrow>
        guitar_init rd sg pitch 0 = Inl ZeroDivisionError)
   \<and> (pitch \<noteq> 0 \<and> py_int (np_round (fdiv rd (Num fs) (Num pitch))) = Inr m \<and> m < 0
        \<and> rd (9999 / 10000) = Num r \<and> r \<noteq> 0 \<longrightarrow>
        (guitar_init rd sg pitch fs = Inl OverflowError
           \<or> guitar_init rd sg pitch fs = Inl ValueError)
        \<and> (py_pow rd (Num r) m = Inl OverflowError \<longrightarrow>
             guitar_init rd sg pitch fs = Inl OverflowError)
        \<and> (\<forall>rm. py_pow rd (Num r) m = Inr rm \<longrightarrow>
             guitar_init rd sg pitch fs = Inl ValueError))
   \<and> (rd (- (5 * pitch)) = fneg (rd (5 * pitch)) \<longrightarrow>
        guitar_init rd sg (- pitch) (- fs) = guitar_init rd sg pitch fs)"
proof -
  have z: "round_half_even 0 = 0"
    by (simp add: round_half_even_def)
  have a: "guitar_init rd sg 0 fs = Inl ZeroDivisionError"
    by (simp add: guitar_init_def)
  have b: "pitch \<noteq> 0 \<and> exact_at rd 0 \<longrightarrow>
        guitar_init rd sg pitch 0 = Inl ZeroDivisionError"
  proof
    assume h: "pitch \<noteq> 0 \<and> exact_at rd 0"
    then have "py_int (np_round (fdiv rd (Num 0) (Num pitch))) = Inr 0"
      by (simp add: exact_at_def z)
    moreover have "\<exists>rm. py_pow rd (rd (9999 / 10000)) 0 = Inr rm"
      by (cases "rd (9999 / 10000)") simp_all
    ultimately show "guitar_init rd sg pitch 0 = Inl ZeroDivisionError"
      using h by (auto simp add: guitar_init_def np_zeros_def)
  qed
  have c: "pitch \<noteq> 0 \<and> py_int (np_round (fdiv rd (Num fs) (Num pitch))) = Inr m \<and> m < 0
        \<and> rd (9999 / 10000) = Num r \<and> r \<noteq> 0 \<longrightarrow>
        (guitar_init rd sg pitch fs = Inl OverflowError
           \<or> guitar_init rd sg pitch fs = Inl ValueError)
        \<and> (py_pow rd (Num r) m = Inl OverflowError \<longrightarrow>
             guitar_init rd sg pitch fs = Inl OverflowError)
        \<and> (\<forall>rm. py_pow rd (Num r) m = Inr rm \<longrightarrow>
             guitar_init rd sg pitch fs = Inl ValueError)"
    using guitar_init_negative_period [of pitch rd fs m r sg]
    by (auto split: sum.splits)
  have d: "rd (- (5 * pitch)) = fneg (rd (5 * pitch)) \<longrightarrow>
        guitar_init rd sg (- pitch) (- fs) = guitar_init rd sg pitch fs"
    using guitar_init_negated by blast
  show ?thesis
    using a b c d by blast
qed

theorem guitar_init_failures_witness:
  "guitar_init exact (direct_form exact [Num 1] [Num 1]) 0 24000 = Inl ZeroDivisionError
   \<and> guitar_init exact (direct_form exact [Num 1] [Num 1]) 110 0 = Inl ZeroDivisionError
   \<and> py_int (np_round (fdiv exact (Num 24000) (Num (- 110)))) = Inr (- 218)
   \<and> guitar_init exact (direct_form exact [Num 1] [Num 1]) (- 110) 24000 = Inl ValueError
   \<and> guitar_init exact (direct_form exact [Num 1] [Num 1]) (- 110) (- 24000)
       = guitar_init exact (direct_form exact [Num 1] [Num 1]) 110 24000"
proof -
  have r: "py_int (np_round (fdiv exact (Num 24000) (Num (- 110)))) = Inr (- 218)"
    by (simp add: round_half_even_def exact_def)
  have w: "py_pow exact (Num (9999 / 10000)) (- 218)
      = Inr (Num ((9999 / 10000) powi (- 218)))"
    by (simp add: exact_def)
  have l: "exact (9999 / 10000) = Num (9999 / 10000)" "(9999 / 10000 :: real) \<noteq> 0"
    by (simp_all add: exact_def)
  have v: "guitar_init exact (direct_form exact [Num 1] [Num 1]) (- 110) 24000 = Inl ValueError"
    using guitar_init_failures [of exact "direct_form exact [Num 1] [Num 1]" 24000 "- 110"
        "- 218" "9999 / 10000"] r w l
    by simp
  have p: "guitar_init exact (direct_form exact [Num 1] [Num 1]) 0 24000 = Inl ZeroDivisionError
      \<and> guitar_init exact (direct_form exact [Num 1] [Num 1]) 110 0 = Inl ZeroDivisionError
      \<and> guitar_init exact (direct_form exact [Num 1] [Num 1]) (- 110) (- 24000)
          = guitar_init exact (direct_form exact [Num 1] [Num 1]) 110 24000"
    using guitar_init_failures [of exact "direct_form exact [Num 1] [Num 1]" 24000 110]
    by (simp add: exact_at_def exact_def)
  show ?thesis
    using r v p by blast
qed

text \<open>With a pitch of -110 and a rate of -24000 the constructor does what it does for
  110 and 24000, whatever the library functions are, and with the concrete lowpass it
  returns a guitar of period 218.\<close>

theorem guitar_init_negative_counterexample:
  "(\<forall>sg. guitar_init exact sg (- 110) (- 24000) = guitar_init exact sg 110 24000)
   \<and> (\<exists>self. guitar_init exact (direct_form exact [Num 1] [Num 1]) (- 110) (- 24000) = Inr self
         \<and> g_M self = 218 \<and> g_ybuf self = replicate 218 (Num 0) \<and> g_iy self = 0)"
proof -
  have r: "round_half_even (2400 / 11) = 218"
    by (simp add: round_half_even_def)
  have "\<exists>self. guitar_init exact (direct_form exact [Num 1] [Num 1]) (- 110) (- 24000) = Inr self
         \<and> g_M self = 218 \<and> g_ybuf self = replicate 218 (Num 0) \<and> g_iy self = 0"
    by (simp add: guitar_init_def r np_zeros_def direct_form_def Let_def exact_def
        py_min_def)
  moreover have "\<forall>sg. guitar_init exact sg (- 110) (- 24000) = guitar_init exact sg 110 24000"
    using guitar_init_negated [of exact 110 _ 24000] by (simp add: exact_def)
  ultimately show ?thesis by blast
qed

section \<open>Calls that return\<close>

lemma np_item_Inr: "np_item a = Inr v \<longleftrightarrow> a = [v]"
  by (auto simp add: np_item_def split: list.splits)

lemma lowpass_ok:
  assumes "lowpass_closed sg (g_bfb g) (g_bfa g) I" and "I (g_bfs g)"
  shows "\<exists>yn z'. lowpass sg g t = Inr (yn, g\<lparr>g_bfs := z'\<rparr>) \<and> I z'"
proof -
  obtain yn z' where "lfilter sg (g_bfb g) (g_bfa g) [t] (g_bfs g) = Inr ([yn], z')"
    and "I z'"
    using assms unfolding lowpass_closed_def by blast
  then have "lowpass sg g t = Inr (yn, g\<lparr>g_bfs := z'\<rparr>) \<and> I z'"
    by (simp add: lowpass_def np_item_def)
  then show ?thesis
    by blast
qed

lemma play_ok:
  "guitar_inv g \<Longrightarrow> lowpass_closed sg (g_bfb g) (g_bfa g) I \<Longrightarrow> I (g_bfs g) \<Longrightarrow>
     \<exists>y g'. play rd sg g x = Inr (y, g') \<and> guitar_inv g'
       \<and> g_bfb g' = g_bfb g \<and> g_bfa g' = g_bfa g \<and> I (g_bfs g') \<and> length y = length x"
proof (induction x arbitrary: g)
  case Nil
  then show ?case by simp
next
  case (Cons xn x)
  obtain t g1 where c: "comb rd g xn = Inr (t, g1)"
    using comb_ok [OF Cons.prems(1)] by blast
  note i1 = comb_inv [OF Cons.prems(1) c]
  obtain yn z' where l: "lowpass sg g1 t = Inr (yn, g1\<lparr>g_bfs := z'\<rparr>)" and z: "I z'"
    using lowpass_ok [of sg g1 I t] Cons.prems(2,3) i1 by auto
  note i2 = lowpass_inv [OF conjunct1 [OF i1] l]
  let ?g2 = "g1\<lparr>g_bfs := z'\<rparr>"
  have "lowpass_closed sg (g_bfb ?g2) (g_bfa ?g2) I" and "I (g_bfs ?g2)"
    using Cons.prems(2) i1 z by simp_all
  from Cons.IH [OF conjunct1 [OF i2] this] obtain y g' where
    p: "play rd sg ?g2 x = Inr (y, g')" and r: "guitar_inv g'" "g_bfb g' = g_bfb ?g2"
      "g_bfa g' = g_bfa ?g2" "I (g_bfs g')" "length y = length x"
    by blast
  have "play rd sg g (xn # x) = Inr (yn # y, g')"
    using c l p by simp
  then show ?case
    using r i1 by auto
qed

lemma play_single_ok:
  assumes "guitar_inv g" and "lowpass_closed sg (g_bfb g) (g_bfa g) I" and "I (g_bfs g)"
  shows "\<exists>r g'. play rd sg g [x] = Inr ([r], g') \<and> guitar_inv g'
     \<and> g_bfb g' = g_bfb g \<and> g_bfa g' = g_bfa g \<and> I (g_bfs g')"
proof -
  from play_ok [OF assms, of rd "[x]"] obtain y g' where
    p: "play rd sg g [x] = Inr (y, g')" and r: "guitar_inv g'" "g_bfb g' = g_bfb g"
      "g_bfa g' = g_bfa g" "I (g_bfs g')" and len: "length y = length [x]"
    by blast
  obtain v where "y = [v]"
    using len by (cases y) auto
  then show ?thesis
    using p r by blast
qed

lemma play_empty_buffer:
  assumes "guitar_init rd sg pitch fs = Inr g" and "g_M g = 0"
  shows "play rd sg g (xn # xs) = Inl IndexError"
proof -
  have "g_ybuf g = []"
    using guitar_init_eq [OF assms(1)] assms(2) by simp
  then show ?thesis
    by (simp add: comb_empty)
qed



lemma direct_form_closed:
  assumes "length a = length b" and "a \<noteq> []" and "hd a \<noteq> Num 0"
  shows "lowpass_closed (direct_form rd b0 a0) b a (\<lambda>z. Suc (length z) = length b)"
proof -
  have "\<exists>yn z'. df2t_lfilter rd b a [t] z = Inr ([yn], z') \<and> Suc (length z') = length b"
    if z: "Suc (length z) = length b" for z t
  proof -
    have "length (snd (df2t_step rd b a z t)) = length z"
      using z assms(1) by (simp add: df2t_step_def Let_def)
    then show ?thesis
      using z assms by (auto simp add: df2t_lfilter_def split: prod.splits)
  qed
  then show ?thesis
    by (simp add: lowpass_closed_def direct_form_def)
qed

section \<open>Indices of the circular buffers\<close>


text \<open>A small run of each object, evaluated without rounding: a guitar of period 2 and
  a channel of 4 slots, with the lowpass that only applies the gain; and the guitar of
  period 0 and the channel of 0 slots.\<close>

lemmas model_defs =
  guitar_init_def feedback_init_def direct_form_def round_half_even_def np_zeros_def
  SPEED_OF_SOUND_def iteration_def comb_def lowpass_def np_get_def np_set_def
  np_index_def np_item_def df2t_lfilter_def df2t_step_def amplify_def mask_assign_def
  TH_def feedback_get_def read_index_def delay_samples_def exact_def fsub_def py_min_def
  power_int_def Let_def

lemma example_guitar_init:
  "guitar_init exact (direct_form exact [Num 1] [Num 1]) 12000 24000 =
     Inr \<lparr>g_M = 2, g_R = Num (9999 / 10000), g_RM = Num (99980001 / 100000000),
          g_ybuf = [Num 0, Num 0], g_iy = 0, g_xbuf = Num 0, g_bfb = [Num 1000],
          g_bfa = [Num 1], g_bfs = []\<rparr>"
  by (simp add: model_defs numeral_2_eq_2)


lemma example_feedback_init:
  "feedback_init exact (5 / 100) 24000 =
     Inr \<lparr>f_L = 4, f_xbuf = [Num 0, Num 0, Num 0, Num 0], f_ix = 0\<rparr>"
  by (simp add: model_defs numeral_eq_Suc)


lemma example_empty_guitar:
  "guitar_init exact (direct_form exact [Num 1] [Num 1]) 110 24 =
     Inr \<lparr>g_M = 0, g_R = Num (9999 / 10000), g_RM = Num 1, g_ybuf = [], g_iy = 0,
          g_xbuf = Num 0, g_bfb = [Num 1000], g_bfa = [Num 1], g_bfs = []\<rparr>"
  by (simp add: model_defs)




section \<open>Properties of the loop\<close>

lemma iteration_Inr:
  assumes "iteration rd sg fs cl dat n (g, f, x) = Inr (yn, st')"
  shows "\<exists>out g' v f'. play rd sg g x = Inr (out, g') \<and> amplify rd out = [yn]
     \<and> feedback_get rd fs f yn (dat n) = Inr (v, f') \<and> st' = (g', f', [fmul rd (Num cl) v])"
  using assms
  by (auto simp add: iteration_def np_item_Inr split: sum.splits prod.splits)

lemma amplify_single:
  assumes "amplify rd out = [yn]"
  shows "\<exists>r. out = [r] \<and> [yn] = amplify rd [r]"
proof -
  have "length out = 1"
    using assms amplify_length [of rd out] by simp
  then obtain r where "out = [r]"
    by (cases out) auto
  then show ?thesis
    using assms by simp
qed

lemma amplify_bound:
  assumes "[yn] = amplify rd [r]" and t: "TH rd = Num th" and th: "0 \<le> th"
  shows "yn = NaN \<or> (\<exists>v. yn = Num v \<and> - th \<le> v \<and> v \<le> th)"
proof (cases r)
  case (Num x)
  then have "yn = Num (max (- th) (min th x))"
    using assms(1) amplify_map [OF t th, of "[x]"] by simp
  moreover have "- th \<le> max (- th) (min th x) \<and> max (- th) (min th x) \<le> th"
    using th by (simp add: max_def min_def)
  ultimately show ?thesis
    by blast
next
  case PInf
  then have "yn = Num th"
    using assms(1) th by (simp add: amplify_steps t)
  then show ?thesis
    using th by simp
next
  case NInf
  then have "yn = Num (- th)"
    using assms(1) th by (simp add: amplify_steps t)
  then show ?thesis
    using th by simp
next
  case NaN
  then show ?thesis
    using assms(1) by (simp add: amplify_steps t)
qed

lemma loop_append:
  "loop rd sg fs cl dat (ns @ ms) st =
     (case loop rd sg fs cl dat ns st of
        Inl e \<Rightarrow> Inl e
      | Inr (y1, st1) \<Rightarrow>
          (case loop rd sg fs cl dat ms st1 of
             Inl e \<Rightarrow> Inl e
           | Inr (y2, st2) \<Rightarrow> Inr (y1 @ y2, st2)))"
  by (induction ns arbitrary: st) (auto split: sum.splits prod.splits)

lemma loop_snoc_Inr:
  assumes "loop rd sg fs cl dat (ns @ [n]) st0 = Inr (y, st)"
  shows "\<exists>y1 st1 yn. loop rd sg fs cl dat ns st0 = Inr (y1, st1)
     \<and> iteration rd sg fs cl dat n st1 = Inr (yn, st) \<and> y = y1 @ [yn]"
  using assms unfolding loop_append
  by (auto split: sum.splits prod.splits)

lemma loop_trace:
  "loop rd sg fs cl dat [0 ..< N] st0 = Inr (y, st) \<Longrightarrow>
     length y = N
     \<and> (\<exists>sts. length sts = Suc N \<and> sts ! 0 = st0 \<and> sts ! N = st
          \<and> (\<forall>n < N. iteration rd sg fs cl dat n (sts ! n) = Inr (y ! n, sts ! Suc n)))"
proof (induction N arbitrary: y st)
  case 0
  then have "y = []" and "st = st0"
    by simp_all
  then have "length [st0] = Suc 0 \<and> [st0] ! 0 = st0 \<and> [st0] ! 0 = st"
    by simp
  then show ?case
    using \<open>y = []\<close> by (intro conjI exI [of _ "[st0]"]) simp_all
next
  case (Suc N)
  from Suc.prems have "loop rd sg fs cl dat ([0 ..< N] @ [N]) st0 = Inr (y, st)"
    by simp
  then obtain y1 st1 yn where
    l: "loop rd sg fs cl dat [0 ..< N] st0 = Inr (y1, st1)"
    and i: "iteration rd sg fs cl dat N st1 = Inr (yn, st)" and y: "y = y1 @ [yn]"
    using loop_snoc_Inr by blast
  from Suc.IH [OF l] obtain sts where
    len: "length y1 = N" and slen: "length sts = Suc N" and s0: "sts ! 0 = st0"
    and sN: "sts ! N = st1"
    and tr: "\<forall>n < N. iteration rd sg fs cl dat n (sts ! n) = Inr (y1 ! n, sts ! Suc n)"
    by blast
  let ?sts = "sts @ [st]"
  have a: "length ?sts = Suc (Suc N)" "?sts ! 0 = st0" "?sts ! Suc N = st"
    using slen s0 by (simp_all add: nth_append)
  have b: "iteration rd sg fs cl dat n (?sts ! n) = Inr (y ! n, ?sts ! Suc n)"
    if "n < Suc N" for n
  proof (cases "n < N")
    case True
    then show ?thesis
      using tr len slen y by (simp add: nth_append)
  next
    case False
    then have "n = N"
      using that by simp
    then show ?thesis
      using i sN len slen y by (simp add: nth_append)
  qed
  have "length y = Suc N"
    using len y by simp
  then show ?case
    using a b by blast
qed

lemma trace_state:
  assumes tr: "\<forall>n < N. iteration rd sg fs cl dat n (sts ! n) = Inr (y ! n, sts ! Suc n)"
    and s0: "sts ! 0 = (g0, f0, [x0])" and n: "n < N"
  shows "\<exists>g f x. sts ! n = (g, f, [x])"
proof (cases n)
  case 0
  then show ?thesis
    using s0 by simp
next
  case (Suc m)
  then have "iteration rd sg fs cl dat m (sts ! m) = Inr (y ! m, sts ! n)"
    using tr n by simp
  then show ?thesis
    using iteration_Inr [of rd sg fs cl dat m "fst (sts ! m)" "fst (snd (sts ! m))"
        "snd (snd (sts ! m))" "y ! m" "sts ! n"]
    by auto
qed

lemma trace_step:
  assumes tr: "\<forall>n < N. iteration rd sg fs cl dat n (sts ! n) = Inr (y ! n, sts ! Suc n)"
    and s0: "sts ! 0 = (g0, f0, [x0])" and n: "n < N"
  shows "\<exists>g f x r g' f' v. sts ! n = (g, f, [x]) \<and> play rd sg g [x] = Inr ([r], g')
     \<and> [y ! n] = amplify rd [r]
     \<and> feedback_get rd fs f (y ! n) (dat n) = Inr (v, f')
     \<and> sts ! Suc n = (g', f', [fmul rd (Num cl) v])"
proof -
  obtain g f x where st: "sts ! n = (g, f, [x])"
    using trace_state [OF tr s0 n] by blast
  have "iteration rd sg fs cl dat n (g, f, [x]) = Inr (y ! n, sts ! Suc n)"
    using tr [rule_format, OF n] st by simp
  from iteration_Inr [OF this] obtain out g' v f' where
    p: "play rd sg g [x] = Inr (out, g')" and a: "amplify rd out = [y ! n]"
    and fg: "feedback_get rd fs f (y ! n) (dat n) = Inr (v, f')"
    and s: "sts ! Suc n = (g', f', [fmul rd (Num cl) v])"
    by blast
  obtain r where "out = [r]" and "[y ! n] = amplify rd [r]"
    using amplify_single [OF a] by blast
  then show ?thesis
    using st p fg s by blast
qed

lemma loop_bound:
  assumes "loop rd sg fs cl dat [0 ..< N] (g0, f0, [x0]) = Inr (y, st)"
    and t: "TH rd = Num th" and th: "0 \<le> th"
  shows "length y = N
     \<and> (\<forall>n < N. y ! n = NaN \<or> (\<exists>v. y ! n = Num v \<and> \<bar>v\<bar> \<le> th))"
proof -
  from loop_trace [OF assms(1)] obtain sts where
    len: "length y = N" and s0: "sts ! 0 = (g0, f0, [x0])"
    and tr: "\<forall>n < N. iteration rd sg fs cl dat n (sts ! n) = Inr (y ! n, sts ! Suc n)"
    by blast
  have "y ! n = NaN \<or> (\<exists>v. y ! n = Num v \<and> \<bar>v\<bar> \<le> th)" if nN: "n < N" for n
  proof -
    obtain r where "[y ! n] = amplify rd [r]"
      using trace_step [OF tr s0 nN] by blast
    from amplify_bound [OF this t th] show ?thesis
      by auto
  qed
  then show ?thesis
    using len by simp
qed

lemma iteration_ok:
  assumes "loop_inv I b a st" and "lowpass_closed sg b a I"
    and "delay_samples rd fs (dat n) = Inr d"
  shows "\<exists>yn st'. iteration rd sg fs cl dat n st = Inr (yn, st') \<and> loop_inv I b a st'"
proof -
  obtain g f x where st: "st = (g, f, [x])"
    and gi: "guitar_inv g" and fi: "feedback_inv f"
    and b: "g_bfb g = b" "g_bfa g = a" and z: "I (g_bfs g)"
  proof -
    obtain g f xs where s: "st = (g, f, xs)"
      by (cases st) auto
    then have "length xs = 1"
      using assms(1) by (simp add: loop_inv_def)
    then obtain x where "xs = [x]"
      by (cases xs) auto
    then show ?thesis
      using that s assms(1) by (simp add: loop_inv_def)
  qed
  obtain r g' where p: "play rd sg g [x] = Inr ([r], g')" and gi': "guitar_inv g'"
    and b': "g_bfb g' = b" "g_bfa g' = a" and z': "I (g_bfs g')"
    using play_single_ok [OF gi, of sg I rd x] assms(2) b z by auto
  obtain yn where a: "amplify rd [r] = [yn]"
    by (simp add: amplify_steps)
  obtain v f' where fg: "feedback_get rd fs f yn (dat n) = Inr (v, f')"
    using feedback_get_ok [OF fi assms(3)] by blast
  have fi': "feedback_inv f'"
    using feedback_get_inv [OF fi fg] by simp
  have "iteration rd sg fs cl dat n st = Inr (yn, (g', f', [fmul rd (Num cl) v]))"
    using p a fg by (simp add: iteration_def st np_item_def)
  moreover have "loop_inv I b a (g', f', [fmul rd (Num cl) v])"
    using gi' fi' b' z' by (simp add: loop_inv_def)
  ultimately show ?thesis
    by blast
qed

lemma loop_ok:
  "loop_inv I b a st \<Longrightarrow> lowpass_closed sg b a I \<Longrightarrow>
   \<forall>n \<in> set ns. \<exists>d. delay_samples rd fs (dat n) = Inr d \<Longrightarrow>
     \<exists>y st'. loop rd sg fs cl dat ns st = Inr (y, st')"
proof (induction ns arbitrary: st)
  case Nil
  show ?case by (metis loop.simps(1))
next
  case (Cons n ns)
  obtain d where d: "delay_samples rd fs (dat n) = Inr d"
    using Cons.prems(3) by auto
  obtain yn st1 where i: "iteration rd sg fs cl dat n st = Inr (yn, st1)"
    and v: "loop_inv I b a st1"
    using iteration_ok [where dat = dat and n = n and cl = cl, OF Cons.prems(1,2) d] by auto
  obtain y st' where "loop rd sg fs cl dat ns st1 = Inr (y, st')"
    using Cons.IH [OF v Cons.prems(2)] Cons.prems(3) by auto
  then have "loop rd sg fs cl dat (n # ns) st = Inr (yn # y, st')"
    using i by simp
  then show ?case
    by blast
qed

text \<open>A run of four iterations, without rounding: the distance is 3 cm (a delay of 3
  samples) for two iterations and 1 cm (a delay of 1 sample) after.\<close>

lemma example_simulation:
  "simulation exact (direct_form exact [Num 1] [Num 1]) 24000 12000 24000 (5 / 100) 24000
       (1 / 10000) (\<lambda>n. if n < 2 then 3 / 100 else 1 / 100) 4 (Num 1) =
     Inr ([Num (9 / 10), Num (- (9 / 10)), Num (9 / 10), Num (- (9 / 10))],
          (\<lparr>g_M = 2, g_R = Num (9999 / 10000), g_RM = Num (99980001 / 100000000),
               g_ybuf = [Num (99980001 / 100000000), Num (- (1008700029999 / 1000000000000))],
               g_iy = 0, g_xbuf = Num (- (9 / 1000)), g_bfb = [Num 1000], g_bfa = [Num 1],
               g_bfs = []\<rparr>,
              \<lparr>f_L = 4, f_xbuf = [Num (9 / 10), Num (- (9 / 10)), Num (9 / 10), Num (- (9 / 10))],
               f_ix = 0\<rparr>,
              [Num (9 / 1000)]))"
  by (simp only: simulation_def example_guitar_init example_feedback_init sum.case)
    (simp add: model_defs eval_nat_numeral)

text \<open>
  Claim C2, as the code has it. The threshold \<open>th\<close> is the float of the literal \<open>0.9\<close>.
  Whatever the lowpass, the pitch, the rates, the coupling loss, the distances, the
  plucking and the number of iterations are: when the run returns, it returns \<open>N\<close>
  samples and each is nan or a number in \<open>[-th, th]\<close>. A sample can be nan: the
  clipping compares, and a comparison with nan is false.
\<close>

theorem output_bounded:
  assumes "simulation rd sg fs pitch g_fs max_distance_m f_fs coupling_loss distance_at N x0
      = Inr (y, st)"
    and "TH rd = Num th" and "0 \<le> th"
  shows "length y = N \<and> (\<forall>n < N. y ! n = NaN \<or> (\<exists>v. y ! n = Num v \<and> \<bar>v\<bar> \<le> th))"
proof -
  from assms(1) obtain g f where
    "loop rd sg fs coupling_loss distance_at [0 ..< N] (g, f, [x0]) = Inr (y, st)"
    by (auto simp add: simulation_def split: sum.splits simp del: upt_Suc)
  then show ?thesis
    using assms(2,3) by (rule loop_bound)
qed

theorem output_bounded_witness:
  "simulation exact (direct_form exact [Num 1] [Num 1]) 24000 12000 24000 (5 / 100) 24000
       (1 / 10000) (\<lambda>n. if n < 2 then 3 / 100 else 1 / 100) 4 (Num 1) =
     Inr ([Num (9 / 10), Num (- (9 / 10)), Num (9 / 10), Num (- (9 / 10))],
          (\<lparr>g_M = 2, g_R = Num (9999 / 10000), g_RM = Num (99980001 / 100000000),
               g_ybuf = [Num (99980001 / 100000000), Num (- (1008700029999 / 1000000000000))],
               g_iy = 0, g_xbuf = Num (- (9 / 1000)), g_bfb = [Num 1000], g_bfa = [Num 1],
               g_bfs = []\<rparr>,
              \<lparr>f_L = 4, f_xbuf = [Num (9 / 10), Num (- (9 / 10)), Num (9 / 10), Num (- (9 / 10))],
               f_ix = 0\<rparr>,
              [Num (9 / 1000)]))
   \<and> TH exact = Num (9 / 10)
   \<and> ([Num (9 / 10), Num (- (9 / 10)), Num (9 / 10), Num (- (9 / 10))] ! 3 = NaN
        \<or> (\<exists>v. [Num (9 / 10), Num (- (9 / 10)), Num (9 / 10), Num (- (9 / 10))] ! 3 = Num v \<and> \<bar>v\<bar> \<le> 9 / 10))"
proof -
  note e = example_simulation
  have t: "TH exact = Num (9 / 10)" and th: "(0 :: real) \<le> 9 / 10"
    by (simp_all add: TH_def exact_def)
  have "\<forall>n < 4. [Num (9 / 10), Num (- (9 / 10)), Num (9 / 10), Num (- (9 / 10))] ! n = NaN
        \<or> (\<exists>v. [Num (9 / 10), Num (- (9 / 10)), Num (9 / 10), Num (- (9 / 10))] ! n = Num v \<and> \<bar>v\<bar> \<le> 9 / 10)"
    using output_bounded [OF e t th] by blast
  then have "[Num (9 / 10), Num (- (9 / 10)), Num (9 / 10), Num (- (9 / 10))] ! 3 = NaN
        \<or> (\<exists>v. [Num (9 / 10), Num (- (9 / 10)), Num (9 / 10), Num (- (9 / 10))] ! 3 = Num v \<and> \<bar>v\<bar> \<le> 9 / 10)"
    by (rule allE [of _ 3]) simp
  with e t show ?thesis
    by blast
qed

text \<open>A run of three iterations at a distance of zero, without rounding: \<open>get\<close> divides
  the sample 0.9 by zero, the guitar receives an infinity, and at the third iteration
  its comb filter subtracts an infinity from an infinity. The run returns, and its
  third sample is nan, which is not a number in \<open>[-0.9, 0.9]\<close>.\<close>

theorem output_nan_counterexample:
  "(\<exists>st. simulation exact (direct_form exact [Num 1] [Num 1]) 24000 12000 24000 (5 / 100) 24000
            (1 / 10000) (\<lambda>n. 0) 3 (Num 1) = Inr ([Num (9 / 10), Num (9 / 10), NaN], st))
   \<and> \<not> (\<exists>v. [Num (9 / 10), Num (9 / 10), NaN] ! 2 = Num v \<and> \<bar>v\<bar> \<le> 9 / 10)"
proof -
  have "\<exists>st. simulation exact (direct_form exact [Num 1] [Num 1]) 24000 12000 24000 (5 / 100)
            24000 (1 / 10000) (\<lambda>n. 0) 3 (Num 1) = Inr ([Num (9 / 10), Num (9 / 10), NaN], st)"
    by (simp only: simulation_def example_guitar_init example_feedback_init sum.case)
      (simp add: model_defs eval_nat_numeral)
  then show ?thesis
    by simp
qed

section \<open>The order of the loop\<close>

text \<open>
  Claim C1. When a run returns, it returns \<open>N\<close> samples, and there is a sequence of
  \<open>N + 1\<close> loop states, from the constructed guitar and channel with the plucking as
  input to the final state, such that for every \<open>n < N\<close>: the guitar plays the one input
  sample \<open>x\<close> of state \<open>n\<close> and gives one sample \<open>r\<close>; \<open>y[n]\<close> is \<open>r\<close> clipped; the
  channel is given \<open>y[n]\<close> and the distance of iteration \<open>n\<close> and returns \<open>v\<close>; and the
  input of state \<open>n + 1\<close> is the coupling loss times \<open>v\<close>. So the input of iteration
  \<open>n + 1\<close> comes from the output of iteration \<open>n\<close> and from nothing later. The run
  does return when the period and the buffer of the channel have at least one slot, the
  delay of every distance of the schedule is computed (its product is finite) and the
  lowpass never fails.
\<close>

theorem loop_driver:
  "(simulation rd sg fs pitch g_fs max_distance_m f_fs coupling_loss distance_at N x0
      = Inr (y, st) \<longrightarrow>
      length y = N
      \<and> (\<exists>sts gi fi.
            guitar_init rd sg pitch g_fs = Inr gi
            \<and> feedback_init rd max_distance_m f_fs = Inr fi
            \<and> length sts = Suc N \<and> sts ! 0 = (gi, fi, [x0]) \<and> sts ! N = st
            \<and> (\<forall>n < N. \<exists>g f x r g' f' v.
                  sts ! n = (g, f, [x])
                  \<and> play rd sg g [x] = Inr ([r], g')
                  \<and> [y ! n] = amplify rd [r]
                  \<and> feedback_get rd fs f (y ! n) (distance_at n) = Inr (v, f')
                  \<and> sts ! Suc n = (g', f', [fmul rd (Num coupling_loss) v]))))
   \<and> (guitar_init rd sg pitch g_fs = Inr g0 \<and> 1 \<le> g_M g0
        \<and> feedback_init rd max_distance_m f_fs = Inr f0 \<and> 1 \<le> f_L f0
        \<and> (\<forall>n < N. \<exists>d. delay_samples rd fs (distance_at n) = Inr d)
        \<and> lowpass_closed sg (g_bfb g0) (g_bfa g0) I \<and> I (g_bfs g0) \<longrightarrow>
        (\<exists>y st. simulation rd sg fs pitch g_fs max_distance_m f_fs coupling_loss distance_at
                  N x0 = Inr (y, st)))"
proof (intro conjI impI)
  assume "simulation rd sg fs pitch g_fs max_distance_m f_fs coupling_loss distance_at N x0
      = Inr (y, st)"
  then obtain gi fi where gi: "guitar_init rd sg pitch g_fs = Inr gi"
    and fi: "feedback_init rd max_distance_m f_fs = Inr fi"
    and l: "loop rd sg fs coupling_loss distance_at [0 ..< N] (gi, fi, [x0]) = Inr (y, st)"
    by (auto simp add: simulation_def split: sum.splits simp del: upt_Suc)
  from loop_trace [OF l] obtain sts where len: "length y = N"
    and sl: "length sts = Suc N" and s0: "sts ! 0 = (gi, fi, [x0])" and sN: "sts ! N = st"
    and tr: "\<forall>n < N. iteration rd sg fs coupling_loss distance_at n (sts ! n)
               = Inr (y ! n, sts ! Suc n)"
    by blast
  show "length y = N"
    by (rule len)
  have "\<forall>n < N. \<exists>g f x r g' f' v.
          sts ! n = (g, f, [x])
          \<and> play rd sg g [x] = Inr ([r], g')
          \<and> [y ! n] = amplify rd [r]
          \<and> feedback_get rd fs f (y ! n) (distance_at n) = Inr (v, f')
          \<and> sts ! Suc n = (g', f', [fmul rd (Num coupling_loss) v])"
    using trace_step [OF tr s0] by blast
  then show "\<exists>sts gi fi.
            guitar_init rd sg pitch g_fs = Inr gi
            \<and> feedback_init rd max_distance_m f_fs = Inr fi
            \<and> length sts = Suc N \<and> sts ! 0 = (gi, fi, [x0]) \<and> sts ! N = st
            \<and> (\<forall>n < N. \<exists>g f x r g' f' v.
                  sts ! n = (g, f, [x])
                  \<and> play rd sg g [x] = Inr ([r], g')
                  \<and> [y ! n] = amplify rd [r]
                  \<and> feedback_get rd fs f (y ! n) (distance_at n) = Inr (v, f')
                  \<and> sts ! Suc n = (g', f', [fmul rd (Num coupling_loss) v]))"
    using gi fi sl s0 sN by blast
next
  assume h: "guitar_init rd sg pitch g_fs = Inr g0 \<and> 1 \<le> g_M g0
        \<and> feedback_init rd max_distance_m f_fs = Inr f0 \<and> 1 \<le> f_L f0
        \<and> (\<forall>n < N. \<exists>d. delay_samples rd fs (distance_at n) = Inr d)
        \<and> lowpass_closed sg (g_bfb g0) (g_bfa g0) I \<and> I (g_bfs g0)"
  have "guitar_inv g0" and "feedback_inv f0"
    using h guitar_init_inv feedback_init_inv by blast+
  then have v: "loop_inv I (g_bfb g0) (g_bfa g0) (g0, f0, [x0])"
    using h by (simp add: loop_inv_def)
  have d: "\<forall>n \<in> set [0 ..< N]. \<exists>d. delay_samples rd fs (distance_at n) = Inr d"
    using h by simp
  obtain y st where
    "loop rd sg fs coupling_loss distance_at [0 ..< N] (g0, f0, [x0]) = Inr (y, st)"
    using loop_ok [OF v _ d] h by blast
  then have "simulation rd sg fs pitch g_fs max_distance_m f_fs coupling_loss distance_at N x0
           = Inr (y, st)"
    using h by (simp add: simulation_def)
  then show "\<exists>y st. simulation rd sg fs pitch g_fs max_distance_m f_fs coupling_loss
      distance_at N x0 = Inr (y, st)"
    by blast
qed

theorem loop_driver_witness:
  "simulation exact (direct_form exact [Num 1] [Num 1]) 24000 12000 24000 (5 / 100) 24000
       (1 / 10000) (\<lambda>n. if n < 2 then 3 / 100 else 1 / 100) 4 (Num 1) =
     Inr ([Num (9 / 10), Num (- (9 / 10)), Num (9 / 10), Num (- (9 / 10))],
          (\<lparr>g_M = 2, g_R = Num (9999 / 10000), g_RM = Num (99980001 / 100000000),
               g_ybuf = [Num (99980001 / 100000000), Num (- (1008700029999 / 1000000000000))],
               g_iy = 0, g_xbuf = Num (- (9 / 1000)), g_bfb = [Num 1000], g_bfa = [Num 1],
               g_bfs = []\<rparr>,
              \<lparr>f_L = 4, f_xbuf = [Num (9 / 10), Num (- (9 / 10)), Num (9 / 10), Num (- (9 / 10))],
               f_ix = 0\<rparr>,
              [Num (9 / 1000)]))
   \<and> (\<exists>sts gi fi.
         guitar_init exact (direct_form exact [Num 1] [Num 1]) 12000 24000 = Inr gi
         \<and> feedback_init exact (5 / 100) 24000 = Inr fi
         \<and> length sts = Suc 4 \<and> sts ! 0 = (gi, fi, [Num 1])
         \<and> sts ! 4 =
             (\<lparr>g_M = 2, g_R = Num (9999 / 10000), g_RM = Num (99980001 / 100000000),
               g_ybuf = [Num (99980001 / 100000000), Num (- (1008700029999 / 1000000000000))],
               g_iy = 0, g_xbuf = Num (- (9 / 1000)), g_bfb = [Num 1000], g_bfa = [Num 1],
               g_bfs = []\<rparr>,
              \<lparr>f_L = 4, f_xbuf = [Num (9 / 10), Num (- (9 / 10)), Num (9 / 10), Num (- (9 / 10))],
               f_ix = 0\<rparr>,
              [Num (9 / 1000)])
         \<and> (\<forall>n < 4. \<exists>g f x r g' f' v.
               sts ! n = (g, f, [x])
               \<and> play exact (direct_form exact [Num 1] [Num 1]) g [x] = Inr ([r], g')
               \<and> [[Num (9 / 10), Num (- (9 / 10)), Num (9 / 10), Num (- (9 / 10))] ! n] = amplify exact [r]
               \<and> feedback_get exact 24000 f ([Num (9 / 10), Num (- (9 / 10)), Num (9 / 10), Num (- (9 / 10))] ! n)
                    (if n < 2 then 3 / 100 else 1 / 100) = Inr (v, f')
               \<and> sts ! Suc n = (g', f', [fmul exact (Num (1 / 10000)) v])))
   \<and> lowpass_closed (direct_form exact [Num 1] [Num 1]) [Num 1000] [Num 1]
       (\<lambda>z. Suc (length z) = length [Num 1000])
   \<and> (\<exists>y st. simulation exact (direct_form exact [Num 1] [Num 1]) 24000 12000 24000 (5 / 100) 24000
       (1 / 10000) (\<lambda>n. if n < 2 then 3 / 100 else 1 / 100) 4 (Num 1) = Inr (y, st))"
proof -
  let ?g0 = "\<lparr>g_M = 2, g_R = Num (9999 / 10000), g_RM = Num (99980001 / 100000000),
          g_ybuf = [Num 0, Num 0], g_iy = 0, g_xbuf = Num 0, g_bfb = [Num 1000],
          g_bfa = [Num 1], g_bfs = []\<rparr>"
  let ?f0 = "\<lparr>f_L = 4, f_xbuf = [Num 0, Num 0, Num 0, Num 0], f_ix = 0\<rparr>"
  let ?I = "\<lambda>z :: float64 list. Suc (length z) = length [Num 1000]"
  note t = loop_driver [where rd = exact and sg = "direct_form exact [Num 1] [Num 1]"
      and fs = 24000 and pitch = 12000
      and g_fs = 24000 and max_distance_m = "5 / 100" and f_fs = 24000
      and coupling_loss = "1 / 10000"
      and distance_at = "\<lambda>n. if n < 2 then 3 / 100 else 1 / 100" and N = 4
      and ?x0.0 = "Num 1"
      and y = "[Num (9 / 10), Num (- (9 / 10)), Num (9 / 10), Num (- (9 / 10))]"
      and st = "(\<lparr>g_M = 2, g_R = Num (9999 / 10000), g_RM = Num (99980001 / 100000000),
               g_ybuf = [Num (99980001 / 100000000), Num (- (1008700029999 / 1000000000000))],
               g_iy = 0, g_xbuf = Num (- (9 / 1000)), g_bfb = [Num 1000], g_bfa = [Num 1],
               g_bfs = []\<rparr>,
              \<lparr>f_L = 4, f_xbuf = [Num (9 / 10), Num (- (9 / 10)), Num (9 / 10), Num (- (9 / 10))],
               f_ix = 0\<rparr>,
              [Num (9 / 1000)])"
      and ?g0.0 = ?g0 and ?f0.0 = ?f0
      and I = ?I]
  have c: "lowpass_closed (direct_form exact [Num 1] [Num 1]) [Num 1000] [Num 1] ?I"
    by (rule direct_form_closed) simp_all
  have d: "\<forall>n < (4 :: nat). \<exists>d. delay_samples exact 24000
      (if n < 2 then 3 / 100 else 1 / 100) = Inr d"
    by (simp add: delay_samples_exact)
  have h: "1 \<le> g_M ?g0" "1 \<le> f_L ?f0" "?I (g_bfs ?g0)"
    "g_bfb ?g0 = [Num 1000]" "g_bfa ?g0 = [Num 1]"
    by simp_all
  have a: "\<exists>sts gi fi.
         guitar_init exact (direct_form exact [Num 1] [Num 1]) 12000 24000 = Inr gi
         \<and> feedback_init exact (5 / 100) 24000 = Inr fi
         \<and> length sts = Suc 4 \<and> sts ! 0 = (gi, fi, [Num 1])
         \<and> sts ! 4 =
             (\<lparr>g_M = 2, g_R = Num (9999 / 10000), g_RM = Num (99980001 / 100000000),
               g_ybuf = [Num (99980001 / 100000000), Num (- (1008700029999 / 1000000000000))],
               g_iy = 0, g_xbuf = Num (- (9 / 1000)), g_bfb = [Num 1000], g_bfa = [Num 1],
               g_bfs = []\<rparr>,
              \<lparr>f_L = 4, f_xbuf = [Num (9 / 10), Num (- (9 / 10)), Num (9 / 10), Num (- (9 / 10))],
               f_ix = 0\<rparr>,
              [Num (9 / 1000)])
         \<and> (\<forall>n < 4. \<exists>g f x r g' f' v.
               sts ! n = (g, f, [x])
               \<and> play exact (direct_form exact [Num 1] [Num 1]) g [x] = Inr ([r], g')
               \<and> [[Num (9 / 10), Num (- (9 / 10)), Num (9 / 10), Num (- (9 / 10))] ! n] = amplify exact [r]
               \<and> feedback_get exact 24000 f ([Num (9 / 10), Num (- (9 / 10)), Num (9 / 10), Num (- (9 / 10))] ! n)
                    (if n < 2 then 3 / 100 else 1 / 100) = Inr (v, f')
               \<and> sts ! Suc n = (g', f', [fmul exact (Num (1 / 10000)) v]))"
    by (rule t [THEN conjunct1, THEN mp, OF example_simulation, THEN conjunct2])
  have b: "\<exists>y st. simulation exact (direct_form exact [Num 1] [Num 1]) 24000 12000 24000 (5 / 100) 24000
       (1 / 10000) (\<lambda>n. if n < 2 then 3 / 100 else 1 / 100) 4 (Num 1) = Inr (y, st)"
    using t [THEN conjunct2] example_guitar_init example_feedback_init c d h
    by (simp only:)
  show ?thesis
    using example_simulation a c b by blast
qed

section \<open>The history in a circular buffer\<close>

lemma circ_init: "circ l [] (replicate l (Num 0))"
  by (simp add: circ_def)

lemma mod_neq_close:
  fixes k n l :: nat
  assumes "k < n" and "n < k + l"
  shows "k mod l \<noteq> n mod l"
proof
  assume "k mod l = n mod l"
  then have "l dvd n - k"
    using assms(1) by (metis mod_eq_dvd_iff_nat less_imp_le)
  moreover have "0 < n - k" and "n - k < l"
    using assms by simp_all
  ultimately show False
    using nat_dvd_not_less by blast
qed

lemma circ_write:
  assumes "circ l ws buf" and "0 < l"
  shows "circ l (ws @ [w]) (buf[length ws mod l := w])"
proof -
  let ?n = "length ws"
  have len: "length buf = l"
    and old: "\<And>k. k < ?n \<Longrightarrow> ?n \<le> k + l \<Longrightarrow> buf ! (k mod l) = ws ! k"
    and zero: "\<And>j. j < l \<Longrightarrow> ?n \<le> j \<Longrightarrow> buf ! j = Num 0"
    using assms(1) by (simp_all add: circ_def)
  have a: "buf[?n mod l := w] ! (k mod l) = (ws @ [w]) ! k"
    if "k < length (ws @ [w])" and "length (ws @ [w]) \<le> k + l" for k
  proof (cases "k = ?n")
    case True
    then show ?thesis
      using len assms(2) by simp
  next
    case False
    then have k: "k < ?n" "?n < k + l"
      using that by simp_all
    then have "k mod l \<noteq> ?n mod l"
      by (rule mod_neq_close)
    then show ?thesis
      using k old [of k] by (simp add: nth_append)
  qed
  have b: "buf[?n mod l := w] ! j = Num 0" if "j < l" and "length (ws @ [w]) \<le> j" for j
  proof -
    have "?n mod l \<le> ?n"
      by simp
    then have "?n mod l \<noteq> j"
      using that by simp
    then show ?thesis
      using zero [of j] that by simp
  qed
  show ?thesis
    unfolding circ_def using len a b by simp
qed

lemma circ_read_back:
  assumes "circ l ws buf" and "d < l" and "d < length ws"
  shows "buf ! ((length ws - 1 - d) mod l) = ws ! (length ws - 1 - d)"
proof -
  have "length ws - 1 - d < length ws" and "length ws \<le> (length ws - 1 - d) + l"
    using assms(2,3) by simp_all
  then show ?thesis
    using assms(1) unfolding circ_def by blast
qed

lemma circ_read_empty:
  assumes "circ l ws buf" and "j < l" and "length ws \<le> j"
  shows "buf ! j = Num 0"
  using assms unfolding circ_def by blast

lemma circ_read_oldest:
  assumes "circ l ws buf" and "0 < l"
  shows "buf ! (length ws mod l) = (if l \<le> length ws then ws ! (length ws - l) else Num 0)"
proof (cases "l \<le> length ws")
  case True
  then have "length ws - l < length ws" and "length ws \<le> (length ws - l) + l"
    using assms(2) by simp_all
  then have "buf ! ((length ws - l) mod l) = ws ! (length ws - l)"
    using assms(1) unfolding circ_def by blast
  moreover have "(length ws - l) mod l = length ws mod l"
    using True by (simp add: le_mod_geq)
  ultimately show ?thesis
    using True by simp
next
  case False
  then show ?thesis
    using circ_read_empty [OF assms(1), of "length ws"] by simp
qed

lemma read_index_nat:
  fixes d :: int and n sz :: nat
  assumes "0 \<le> d" and "d < int sz"
  shows "nat ((int sz + int (n mod sz) - d) mod int sz) =
     (if nat d \<le> n then (n - nat d) mod sz else sz + n - nat d)"
proof -
  have "(int sz + int (n mod sz) - d) mod int sz
      = (int sz + (int n mod int sz - d)) mod int sz"
    by (simp only: zmod_int add_diff_eq)
  also have "\<dots> = (int n mod int sz - d) mod int sz"
    by (rule mod_add_self1)
  also have "\<dots> = (int n - d) mod int sz"
    by (rule mod_diff_left_eq)
  finally have e: "(int sz + int (n mod sz) - d) mod int sz = (int n - d) mod int sz" .
  show ?thesis
  proof (cases "nat d \<le> n")
    case True
    then have "int n - d = int (n - nat d)"
      using assms(1) by simp
    moreover have "int ((n - nat d) mod sz) = int (n - nat d) mod int sz"
      by (rule zmod_int)
    ultimately have "(int sz + int (n mod sz) - d) mod int sz = int ((n - nat d) mod sz)"
      using e by (simp only:)
    then have "nat ((int sz + int (n mod sz) - d) mod int sz) = (n - nat d) mod sz"
      by (simp only: nat_int)
    then show ?thesis
      using True by (simp only: if_True)
  next
    case False
    then have r: "0 \<le> int n - d + int sz" "int n - d + int sz < int sz"
      using assms by simp_all
    have "(int n - d) mod int sz = (int n - d + int sz) mod int sz"
      by (rule mod_add_self2 [symmetric])
    also have "\<dots> = int n - d + int sz"
      using r by (rule mod_pos_pos_trivial)
    finally have "(int sz + int (n mod sz) - d) mod int sz = int n - d + int sz"
      using e by (simp only:)
    moreover have "nat (int n - d + int sz) = sz + n - nat d"
      using False assms by linarith
    ultimately have "nat ((int sz + int (n mod sz) - d) mod int sz) = sz + n - nat d"
      by (simp only:)
    then show ?thesis
      using False by (simp only: if_False)
  qed
qed

lemma feedback_gets_append:
  "feedback_gets rd fs self (ps @ qs) =
     (case feedback_gets rd fs self ps of
        Inl e \<Rightarrow> Inl e
      | Inr (vs, s1) \<Rightarrow>
          (case feedback_gets rd fs s1 qs of
             Inl e \<Rightarrow> Inl e
           | Inr (ws, s2) \<Rightarrow> Inr (vs @ ws, s2)))"
  by (induction ps arbitrary: self) (auto split: sum.splits prod.splits)

lemma suc_index:
  "(int (n mod sz) + 1) mod int sz = int (Suc n mod sz)"
proof -
  have "int (Suc n mod sz) = (int n + 1) mod int sz"
    by (simp only: zmod_int of_nat_Suc) (simp only: add.commute)
  also have "\<dots> = (int n mod int sz + 1) mod int sz"
    by (rule mod_add_left_eq [symmetric])
  finally show ?thesis
    by (simp only: zmod_int)
qed

lemma index_in_range:
  assumes "0 < sz"
  shows "0 \<le> int (n mod sz) \<and> int (n mod sz) < int sz"
proof -
  have "n mod sz < sz"
    using assms by simp
  then have "int (n mod sz) < int sz"
    by (simp only: of_nat_less_iff)
  then show ?thesis
    by simp
qed

text \<open>The channel at a fixed distance whose delay \<open>d\<close> is inside the buffer is a delay
  line: the sample returned at time \<open>m\<close> is the sample pushed at time \<open>m - d\<close>, or
  zero before time \<open>d\<close>, divided by the distance.\<close>

lemma delay_line_step:
  assumes c: "circ sz xs (f_xbuf f)" and sz: "0 < sz" and fl: "f_L f = int sz"
    and ix: "f_ix f = int (length xs mod sz)"
    and dd: "delay_samples rd fs distance = Inr d"
    and d: "0 \<le> d" "d < int sz"
  shows "\<exists>f'. feedback_get rd fs f x distance =
       Inr (fdiv rd (if nat d \<le> length xs then (xs @ [x]) ! (length xs - nat d) else Num 0)
              (Num distance), f')
     \<and> f_L f' = int sz \<and> f_ix f' = int (length (xs @ [x]) mod sz)
     \<and> circ sz (xs @ [x]) (f_xbuf f')"
proof -
  let ?n = "length xs"
  have blen: "length (f_xbuf f) = sz"
    using c by (simp add: circ_def)
  have inv: "feedback_inv f"
    unfolding feedback_inv_def fl ix using index_in_range [OF sz, of ?n] sz blen by simp
  let ?buf = "(f_xbuf f)[?n mod sz := x]"
  have c': "circ sz (xs @ [x]) ?buf"
    using circ_write [OF c sz] .
  have "read_index f d = (int sz + int (?n mod sz) - d) mod int sz"
    by (simp only: read_index_def fl ix)
  then have ri: "nat (read_index f d)
      = (if nat d \<le> ?n then (?n - nat d) mod sz else sz + ?n - nat d)"
    using read_index_nat [OF d, of ?n] by (simp only:)
  have val: "?buf ! nat (read_index f d)
      = (if nat d \<le> ?n then (xs @ [x]) ! (?n - nat d) else Num 0)"
  proof (cases "nat d \<le> ?n")
    case True
    have "nat d < sz" and "nat d < length (xs @ [x])"
      using d True by simp_all
    from circ_read_back [OF c' this] show ?thesis
      using ri True by simp
  next
    case False
    have "sz + ?n - nat d < sz" and "length (xs @ [x]) \<le> sz + ?n - nat d"
      using d False by simp_all
    from circ_read_empty [OF c' this] show ?thesis
      using ri False by simp
  qed
  let ?f' = "f\<lparr>f_xbuf := ?buf, f_ix := (f_ix f + 1) mod f_L f\<rparr>"
  have "nat (f_ix f) = ?n mod sz"
    unfolding ix by (rule nat_int)
  then have ge: "feedback_get rd fs f x distance =
      Inr (fdiv rd (if nat d \<le> ?n then (xs @ [x]) ! (?n - nat d) else Num 0) (Num distance),
           ?f')"
    using feedback_get_ok [OF inv dd, of x] val by (simp only:)
  have "f_ix ?f' = (int (?n mod sz) + 1) mod int sz"
    by (simp add: ix fl del: of_nat_mod)
  then have "f_ix ?f' = int (length (xs @ [x]) mod sz)"
    using suc_index [of ?n sz] by simp
  moreover have "f_L ?f' = int sz" and "f_xbuf ?f' = ?buf"
    using fl by simp_all
  ultimately show ?thesis
    using ge c' by (intro exI [of _ ?f']) (simp only: simp_thms)
qed

lemma delay_line:
  assumes init: "feedback_init rd max_distance_m f_fs = Inr f0"
    and dd: "delay_samples rd fs distance = Inr d"
    and d: "0 \<le> d" "d < f_L f0"
  shows "\<exists>vs f. feedback_gets rd fs f0 (map (\<lambda>x. (x, distance)) xs) = Inr (vs, f)
     \<and> length vs = length xs \<and> f_L f = f_L f0
     \<and> f_ix f = int (length xs mod nat (f_L f0))
     \<and> circ (nat (f_L f0)) xs (f_xbuf f)
     \<and> (\<forall>m < length xs.
           vs ! m = fdiv rd (if nat d \<le> m then xs ! (m - nat d) else Num 0) (Num distance))"
proof (induction xs rule: rev_induct)
  case Nil
  have "circ (nat (f_L f0)) [] (f_xbuf f0)" and "f_ix f0 = 0"
    using feedback_init_eq [OF init] circ_init by simp_all
  then show ?case
    by simp
next
  case (snoc x xs)
  define sz where "sz = nat (f_L f0)"
  let ?n = "length xs"
  have sz: "0 < sz" and l2: "f_L f0 = int sz" and d2: "d < int sz"
    using d by (simp_all add: sz_def)
  from snoc [folded sz_def] obtain vs f where
    g: "feedback_gets rd fs f0 (map (\<lambda>x. (x, distance)) xs) = Inr (vs, f)"
    and len: "length vs = ?n" and fl: "f_L f = f_L f0"
    and ix: "f_ix f = int (?n mod sz)" and c: "circ sz xs (f_xbuf f)"
    and out: "\<forall>m < ?n. vs ! m
        = fdiv rd (if nat d \<le> m then xs ! (m - nat d) else Num 0) (Num distance)"
    by blast
  let ?v = "fdiv rd (if nat d \<le> ?n then (xs @ [x]) ! (?n - nat d) else Num 0) (Num distance)"
  from delay_line_step [OF c sz fl [unfolded l2] ix dd d(1) d2, of x]
  obtain f' where ge: "feedback_get rd fs f x distance = Inr (?v, f')"
    and fl': "f_L f' = int sz" and ix': "f_ix f' = int (length (xs @ [x]) mod sz)"
    and c': "circ sz (xs @ [x]) (f_xbuf f')"
    by blast
  have r: "feedback_gets rd fs f0 (map (\<lambda>x. (x, distance)) (xs @ [x])) = Inr (vs @ [?v], f')"
    using g ge by (simp add: feedback_gets_append)
  have o: "\<forall>m < length (xs @ [x]).
      (vs @ [?v]) ! m
        = fdiv rd (if nat d \<le> m then (xs @ [x]) ! (m - nat d) else Num 0) (Num distance)"
  proof (intro allI impI)
    fix m
    assume "m < length (xs @ [x])"
    then consider "m < ?n" | "m = ?n"
      by fastforce
    then show "(vs @ [?v]) ! m
        = fdiv rd (if nat d \<le> m then (xs @ [x]) ! (m - nat d) else Num 0) (Num distance)"
    proof cases
      case 1
      then have "m - nat d < ?n"
        by simp
      then show ?thesis
        using 1 out len by (simp add: nth_append)
    next
      case 2
      then show ?thesis
        using len by (simp add: nth_append)
    qed
  qed
  have "length (vs @ [?v]) = length (xs @ [x])" and "f_L f' = f_L f0"
    using len fl' l2 by simp_all
  then show ?case
    unfolding sz_def [symmetric] using r ix' c' o by blast
qed

lemma zero_attenuated:
  "distance \<noteq> 0 \<Longrightarrow> exact_at rd 0 \<Longrightarrow> fdiv rd (Num 0) (Num distance) = Num 0"
  by (simp add: exact_at_def)

text \<open>
  Claim C6, as the code has it. At a fixed distance whose delay \<open>d\<close>, the ceiling of the
  product \<open>distance / 343.0 * fs\<close> as the floats give it, with \<open>fs\<close> the global rate, is
  in \<open>[0, L)\<close>, a fresh channel given a sequence that is zero except at time \<open>n\<close>
  returns the sample of time \<open>n\<close> divided by the distance at time \<open>n + d\<close>, and zero
  divided by the distance at every other time, which is zero for a distance other than
  zero. The lag is the ceiling, not the rounded value.
\<close>

theorem delay_impulse:
  assumes "feedback_init rd max_distance_m f_fs = Inr f0"
    and "delay_samples rd fs distance = Inr d"
    and "0 \<le> d" and "d < f_L f0"
    and "n < length xs"
    and "\<forall>m < length xs. m \<noteq> n \<longrightarrow> xs ! m = Num 0"
  shows "(\<exists>v. fmul rd (fdiv rd (Num distance) (Num SPEED_OF_SOUND)) (Num fs) = Num v
            \<and> d = \<lceil>v\<rceil>)
     \<and> (\<exists>vs f. feedback_gets rd fs f0 (map (\<lambda>x. (x, distance)) xs) = Inr (vs, f)
           \<and> length vs = length xs
           \<and> (\<forall>m < length xs.
                 vs ! m = (if m = n + nat d then fdiv rd (xs ! n) (Num distance)
                           else fdiv rd (Num 0) (Num distance))))
     \<and> (distance \<noteq> 0 \<and> exact_at rd 0 \<longrightarrow> fdiv rd (Num 0) (Num distance) = Num 0)"
proof -
  from delay_line [OF assms(1,2,3,4), of xs] obtain vs f where
    g: "feedback_gets rd fs f0 (map (\<lambda>x. (x, distance)) xs) = Inr (vs, f)"
    and len: "length vs = length xs"
    and out: "\<forall>m < length xs.
        vs ! m = fdiv rd (if nat d \<le> m then xs ! (m - nat d) else Num 0) (Num distance)"
    by blast
  have "vs ! m = (if m = n + nat d then fdiv rd (xs ! n) (Num distance)
                  else fdiv rd (Num 0) (Num distance))" if m: "m < length xs" for m
  proof (cases "m = n + nat d")
    case True
    then show ?thesis
      using out m by simp
  next
    case False
    have "(if nat d \<le> m then xs ! (m - nat d) else Num 0) = Num 0"
    proof (cases "nat d \<le> m")
      case True
      then have "m - nat d \<noteq> n" and "m - nat d < length xs"
        using False m by auto
      then show ?thesis
        using assms(6) True by simp
    next
      case False
      then show ?thesis
        by simp
    qed
    then show ?thesis
      using out m False by simp
  qed
  then have "\<exists>vs f. feedback_gets rd fs f0 (map (\<lambda>x. (x, distance)) xs) = Inr (vs, f)
           \<and> length vs = length xs
           \<and> (\<forall>m < length xs.
                 vs ! m = (if m = n + nat d then fdiv rd (xs ! n) (Num distance)
                           else fdiv rd (Num 0) (Num distance)))"
    using g len by blast
  then show ?thesis
    using assms(2) [unfolded delay_samples_Inr] zero_attenuated by blast
qed

lemma example_channel:
  "feedback_init exact 5 24000 = Inr \<lparr>f_L = 350, f_xbuf = replicate 350 (Num 0), f_ix = 0\<rparr>"
  by (simp add: feedback_init_def np_zeros_def delay_samples_exact SPEED_OF_SOUND_def)

lemma example_delay:
  "delay_samples exact 24000 (5 / 100) = Inr 4"
  by (simp add: delay_samples_exact SPEED_OF_SOUND_def)

theorem delay_impulse_witness:
  "feedback_init exact 5 24000 = Inr \<lparr>f_L = 350, f_xbuf = replicate 350 (Num 0), f_ix = 0\<rparr>
   \<and> delay_samples exact 24000 (5 / 100) = Inr 4
   \<and> (\<exists>vs f. feedback_gets exact 24000 \<lparr>f_L = 350, f_xbuf = replicate 350 (Num 0), f_ix = 0\<rparr>
              (map (\<lambda>x. (x, 5 / 100)) [Num 1, Num 0, Num 0, Num 0, Num 0, Num 0]) = Inr (vs, f)
         \<and> length vs = 6 \<and> vs ! 4 = Num 20 \<and> vs ! 3 = Num 0)"
proof -
  let ?xs = "[Num 1, Num 0, Num 0, Num 0, Num 0, Num 0]"
  have z: "\<forall>m < length ?xs. m \<noteq> 0 \<longrightarrow> ?xs ! m = Num 0"
    by (simp add: nth_Cons' less_Suc_eq)
  have h: "(0 :: int) \<le> 4"
    "(4 :: int) < f_L \<lparr>f_L = 350, f_xbuf = replicate 350 (Num 0), f_ix = 0\<rparr>"
    "(0 :: nat) < length ?xs"
    by simp_all
  from delay_impulse [OF example_channel example_delay h z]
  obtain vs f where
    g: "feedback_gets exact 24000 \<lparr>f_L = 350, f_xbuf = replicate 350 (Num 0), f_ix = 0\<rparr>
              (map (\<lambda>x. (x, 5 / 100)) ?xs) = Inr (vs, f)"
    and len: "length vs = length ?xs"
    and out: "\<forall>m < length ?xs.
           vs ! m = (if m = 0 + nat 4 then fdiv exact (?xs ! 0) (Num (5 / 100))
                     else fdiv exact (Num 0) (Num (5 / 100)))"
    by blast
  have "vs ! 4 = Num 20" and "vs ! 3 = Num 0"
    using out [rule_format, of 4] out [rule_format, of 3]
    by (simp_all add: exact_def)
  then show ?thesis
    using example_channel example_delay g len by auto
qed

text \<open>The notebook's channel (5 metres at 24000 Hz, 350 slots) at the notebook's end
  distance of 5 cm, with a global rate of 24000 Hz: the rounded lag is 3 samples, the
  delay of the code is 4, and an impulse pushed at time 0 comes out at time 4 and not
  at time 3.\<close>

theorem delay_rounding_counterexample:
  "py_int (np_round (fmul exact (fdiv exact (Num (5 / 100)) (Num 343)) (Num 24000))) = Inr 3
   \<and> delay_samples exact 24000 (5 / 100) = Inr 4
   \<and> feedback_init exact 5 24000 =
       Inr \<lparr>f_L = 350, f_xbuf = replicate 350 (Num 0), f_ix = 0\<rparr>
   \<and> (\<exists>vs f. feedback_gets exact 24000 \<lparr>f_L = 350, f_xbuf = replicate 350 (Num 0), f_ix = 0\<rparr>
              (map (\<lambda>x. (x, 5 / 100)) [Num 1, Num 0, Num 0, Num 0, Num 0, Num 0]) = Inr (vs, f)
         \<and> vs ! 3 = Num 0 \<and> vs ! 3 \<noteq> Num 20 \<and> vs ! 4 = Num 20
         \<and> fdiv exact (Num 1) (Num (5 / 100)) = Num 20)"
proof -
  let ?xs = "[Num 1, Num 0, Num 0, Num 0, Num 0, Num 0]"
  have r: "py_int (np_round (fmul exact (fdiv exact (Num (5 / 100)) (Num 343)) (Num 24000)))
      = Inr 3"
    by (simp add: round_half_even_def exact_def)
  have h: "(0 :: int) \<le> 4"
    "(4 :: int) < f_L \<lparr>f_L = 350, f_xbuf = replicate 350 (Num 0), f_ix = 0\<rparr>"
    by simp_all
  from delay_line [OF example_channel example_delay h, of ?xs]
  obtain vs f where
    g: "feedback_gets exact 24000 \<lparr>f_L = 350, f_xbuf = replicate 350 (Num 0), f_ix = 0\<rparr>
              (map (\<lambda>x. (x, 5 / 100)) ?xs) = Inr (vs, f)"
    and out: "\<forall>m < length ?xs.
           vs ! m = fdiv exact (if nat 4 \<le> m then ?xs ! (m - nat 4) else Num 0) (Num (5 / 100))"
    by blast
  have "vs ! 3 = Num 0" and "vs ! 4 = Num 20"
    using out [rule_format, of 4] out [rule_format, of 3] by (simp_all add: exact_def)
  moreover have "fdiv exact (Num 1) (Num (5 / 100)) = Num 20"
    by (simp add: exact_def)
  ultimately show ?thesis
    using r example_delay example_channel g by auto
qed

section \<open>The rate of the delay\<close>








section \<open>The comb filter\<close>

lemma combs_append:
  "combs rd self (xs @ ys) =
     (case combs rd self xs of
        Inl e \<Rightarrow> Inl e
      | Inr (ts, s1) \<Rightarrow>
          (case combs rd s1 ys of
             Inl e \<Rightarrow> Inl e
           | Inr (us, s2) \<Rightarrow> Inr (ts @ us, s2)))"
  by (induction xs arbitrary: self) (auto split: sum.splits prod.splits)

text \<open>One call of the comb stage on a buffer holding the history \<open>ts\<close> of its outputs:
  the slot read is the one about to be overwritten, and it holds the output of \<open>sz\<close>
  calls ago, or zero during the first \<open>sz\<close> calls.\<close>

lemma comb_step:
  assumes c: "circ sz ts (g_ybuf g)" and sz: "0 < sz" and m: "g_M g = int sz"
    and iy: "g_iy g = int (length ts mod sz)"
  shows "\<exists>g'. comb rd g x =
       Inr (fadd rd (fsub rd x (fmul rd (g_R g) (g_xbuf g)))
              (fmul rd (g_RM g) (if sz \<le> length ts then ts ! (length ts - sz) else Num 0)), g')
     \<and> g_M g' = int sz \<and> g_R g' = g_R g \<and> g_RM g' = g_RM g
     \<and> g_bfb g' = g_bfb g \<and> g_bfa g' = g_bfa g \<and> g_bfs g' = g_bfs g
     \<and> g_xbuf g' = x
     \<and> g_iy g' = int (Suc (length ts) mod sz)
     \<and> g_ybuf g' = (g_ybuf g)[length ts mod sz :=
           fadd rd (fsub rd x (fmul rd (g_R g) (g_xbuf g)))
              (fmul rd (g_RM g) (if sz \<le> length ts then ts ! (length ts - sz) else Num 0))]"
proof -
  let ?n = "length ts"
  let ?t = "fadd rd (fsub rd x (fmul rd (g_R g) (g_xbuf g)))
              (fmul rd (g_RM g) (if sz \<le> length ts then ts ! (length ts - sz) else Num 0))"
  have blen: "length (g_ybuf g) = sz"
    using c by (simp add: circ_def)
  have inv: "guitar_inv g"
    unfolding guitar_inv_def m iy using index_in_range [OF sz, of ?n] sz blen by simp
  have ni: "nat (g_iy g) = ?n mod sz"
    unfolding iy by (rule nat_int)
  have old: "g_ybuf g ! (?n mod sz) = (if sz \<le> ?n then ts ! (?n - sz) else Num 0)"
    using circ_read_oldest [OF c sz] .
  let ?g' = "g\<lparr>g_ybuf := (g_ybuf g)[?n mod sz := ?t],
               g_iy := (g_iy g + 1) mod g_M g, g_xbuf := x\<rparr>"
  have e: "comb rd g x = Inr (?t, ?g')"
    using comb_ok [OF inv, of rd x] by (simp only: ni old)
  have "g_iy ?g' = (int (?n mod sz) + 1) mod int sz"
    by (simp add: iy m del: of_nat_mod)
  then have "g_iy ?g' = int (Suc ?n mod sz)"
    using suc_index [of ?n sz] by simp
  moreover have "g_M ?g' = int sz"
    using m by simp
  ultimately show ?thesis
    using e by (intro exI [of _ ?g']) simp
qed

text \<open>The comb stage over a sequence of samples, from a guitar as the constructor
  leaves it.\<close>

lemma combs_recurrence:
  assumes m: "1 \<le> g_M g0" and b: "g_ybuf g0 = replicate (nat (g_M g0)) (Num 0)"
    and i: "g_iy g0 = 0" and x0: "g_xbuf g0 = Num 0"
  shows "\<exists>ts g. combs rd g0 xs = Inr (ts, g) \<and> length ts = length xs
     \<and> g_M g = g_M g0 \<and> g_R g = g_R g0 \<and> g_RM g = g_RM g0
     \<and> g_bfb g = g_bfb g0 \<and> g_bfa g = g_bfa g0 \<and> g_bfs g = g_bfs g0
     \<and> g_iy g = int (length xs mod nat (g_M g0))
     \<and> g_xbuf g = (if xs = [] then Num 0 else last xs)
     \<and> circ (nat (g_M g0)) ts (g_ybuf g)
     \<and> (\<forall>n < length xs.
           ts ! n = fadd rd (fsub rd (xs ! n)
                               (fmul rd (g_R g0) (if 0 < n then xs ! (n - 1) else Num 0)))
                      (fmul rd (g_RM g0)
                         (if nat (g_M g0) \<le> n then ts ! (n - nat (g_M g0)) else Num 0)))"
proof (induction xs rule: rev_induct)
  case Nil
  have "circ (nat (g_M g0)) [] (g_ybuf g0)"
    using b circ_init by simp
  then show ?case
    using i x0 by simp
next
  case (snoc x xs)
  define sz where "sz = nat (g_M g0)"
  let ?n = "length xs"
  have sz: "0 < sz" and m2: "g_M g0 = int sz"
    using m by (simp_all add: sz_def)
  from snoc [folded sz_def] obtain ts g where
    r: "combs rd g0 xs = Inr (ts, g)" and len: "length ts = ?n"
    and f: "g_M g = g_M g0" "g_R g = g_R g0" "g_RM g = g_RM g0"
      "g_bfb g = g_bfb g0" "g_bfa g = g_bfa g0" "g_bfs g = g_bfs g0"
    and iy: "g_iy g = int (?n mod sz)"
    and xb: "g_xbuf g = (if xs = [] then Num 0 else last xs)"
    and c: "circ sz ts (g_ybuf g)"
    and rec: "\<forall>n < ?n. ts ! n
        = fadd rd (fsub rd (xs ! n) (fmul rd (g_R g0) (if 0 < n then xs ! (n - 1) else Num 0)))
            (fmul rd (g_RM g0) (if sz \<le> n then ts ! (n - sz) else Num 0))"
    by blast
  have xprev: "g_xbuf g = (if 0 < ?n then xs ! (?n - 1) else Num 0)"
    using xb by (simp add: last_conv_nth)
  define t where
    "t = fadd rd (fsub rd x (fmul rd (g_R g) (g_xbuf g)))
              (fmul rd (g_RM g) (if sz \<le> length ts then ts ! (length ts - sz) else Num 0))"
  from comb_step [OF c sz f(1) [unfolded m2] iy [folded len], of rd x, folded t_def]
  obtain g' where e: "comb rd g x = Inr (t, g')"
    and f': "g_M g' = int sz" "g_R g' = g_R g" "g_RM g' = g_RM g"
      "g_bfb g' = g_bfb g" "g_bfa g' = g_bfa g" "g_bfs g' = g_bfs g"
    and xb': "g_xbuf g' = x"
    and iy': "g_iy g' = int (Suc (length ts) mod sz)"
    and yb': "g_ybuf g' = (g_ybuf g)[length ts mod sz := t]"
    by blast
  have c': "circ sz (ts @ [t]) (g_ybuf g')"
    unfolding yb' using circ_write [OF c sz] .
  have r': "combs rd g0 (xs @ [x]) = Inr (ts @ [t], g')"
    using r e by (simp add: combs_append)
  have tv: "t = fadd rd (fsub rd x
                           (fmul rd (g_R g0) (if 0 < ?n then xs ! (?n - 1) else Num 0)))
                  (fmul rd (g_RM g0) (if sz \<le> ?n then ts ! (?n - sz) else Num 0))"
    unfolding t_def f xprev len by (rule refl)
  have rec': "\<forall>n < length (xs @ [x]).
      (ts @ [t]) ! n
        = fadd rd (fsub rd ((xs @ [x]) ! n)
                     (fmul rd (g_R g0) (if 0 < n then (xs @ [x]) ! (n - 1) else Num 0)))
            (fmul rd (g_RM g0) (if sz \<le> n then (ts @ [t]) ! (n - sz) else Num 0))"
  proof (intro allI impI)
    fix n
    assume "n < length (xs @ [x])"
    then consider "n < ?n" | "n = ?n"
      by fastforce
    then show "(ts @ [t]) ! n
        = fadd rd (fsub rd ((xs @ [x]) ! n)
                     (fmul rd (g_R g0) (if 0 < n then (xs @ [x]) ! (n - 1) else Num 0)))
            (fmul rd (g_RM g0) (if sz \<le> n then (ts @ [t]) ! (n - sz) else Num 0))"
    proof cases
      case 1
      have lt: "n < length ts" "n - sz < length ts" "n < length xs" "n - 1 < length xs"
        using 1 len by arith+
      have a: "(ts @ [t]) ! n = ts ! n" "(ts @ [t]) ! (n - sz) = ts ! (n - sz)"
        "(xs @ [x]) ! n = xs ! n" "(xs @ [x]) ! (n - 1) = xs ! (n - 1)"
        using lt by (simp_all only: nth_append if_True)
      show ?thesis
        unfolding a using rec [rule_format, OF 1] .
    next
      case 2
      have a: "(ts @ [t]) ! n = t" "(xs @ [x]) ! n = x"
        using 2 len by (simp_all add: nth_append)
      have "n - sz < length ts" if "sz \<le> n"
        using that 2 len sz by arith
      then have b: "(if sz \<le> n then (ts @ [t]) ! (n - sz) else Num 0)
          = (if sz \<le> n then ts ! (n - sz) else Num 0)"
        by (simp add: nth_append)
      have "n - 1 < length xs" if "0 < n"
        using that 2 by arith
      then have c: "(if 0 < n then (xs @ [x]) ! (n - 1) else Num 0)
          = (if 0 < n then xs ! (n - 1) else Num 0)"
        by (simp add: nth_append)
      show ?thesis
        unfolding a b c using tv 2 by (simp only:)
    qed
  qed
  have "length (ts @ [t]) = length (xs @ [x])" and "g_M g' = g_M g0"
    and "g_iy g' = int (length (xs @ [x]) mod sz)"
    and "g_xbuf g' = (if xs @ [x] = [] then Num 0 else last (xs @ [x]))"
    using len f' m2 iy' xb' by simp_all
  then show ?case
    unfolding sz_def [symmetric] using r' f f' c' rec' by (intro exI conjI) simp_all
qed

lemma comb_same:
  assumes "same_comb ga gb" and "comb rd ga x = Inr (t, ga')"
  shows "\<exists>gb'. comb rd gb x = Inr (t, gb') \<and> same_comb ga' gb'
     \<and> same_lowpass ga' ga \<and> same_lowpass gb' gb"
  using assms
  by (auto simp add: comb_def same_comb_def same_lowpass_def Let_def
      split: sum.splits if_splits)

lemma lowpass_same:
  assumes "same_lowpass ga gc" and "lowpass sg ga t = Inr (yn, ga')"
  shows "\<exists>gc'. lowpass sg gc t = Inr (yn, gc') \<and> same_lowpass ga' gc'
     \<and> same_comb ga' ga \<and> same_comb gc' gc"
  using assms
  by (auto simp add: lowpass_def same_comb_def same_lowpass_def
      split: sum.splits prod.splits)

lemma same_comb_trans: "same_comb ga gb \<Longrightarrow> same_comb gb gc \<Longrightarrow> same_comb ga gc"
  by (simp add: same_comb_def)

lemma same_lowpass_trans: "same_lowpass ga gb \<Longrightarrow> same_lowpass gb gc \<Longrightarrow> same_lowpass ga gc"
  by (simp add: same_lowpass_def)

lemma same_comb_sym: "same_comb ga gb \<Longrightarrow> same_comb gb ga"
  by (simp add: same_comb_def)

lemma same_lowpass_sym: "same_lowpass ga gb \<Longrightarrow> same_lowpass gb ga"
  by (simp add: same_lowpass_def)

lemma same_comb_refl: "same_comb g g"
  by (simp add: same_comb_def)

lemma same_lowpass_refl: "same_lowpass g g"
  by (simp add: same_lowpass_def)

lemma same_fields:
  assumes "same_comb ga gc" and "same_lowpass ga gl"
    and "same_comb gb gc" and "same_lowpass gb gl"
  shows "ga = gb"
  using assms by (simp add: same_comb_def same_lowpass_def)

text \<open>A successful \<open>play\<close> is the comb stage over the input and the lowpass stage over
  what the comb stage gives: the two stages share no field.\<close>

lemma play_split:
  "play rd sg ga xs = Inr (ys, ga') \<Longrightarrow> same_comb ga gb \<Longrightarrow> same_lowpass ga gc \<Longrightarrow>
     \<exists>ts gb' gc'. combs rd gb xs = Inr (ts, gb') \<and> lowpasses sg gc ts = Inr (ys, gc')
       \<and> length ts = length xs \<and> same_comb ga' gb' \<and> same_lowpass ga' gc'"
proof (induction xs arbitrary: ga gb gc ys)
  case Nil
  then show ?case by simp
next
  case (Cons x xs)
  from Cons.prems(1) obtain t g1 yn g2 ys' where
    c: "comb rd ga x = Inr (t, g1)" and l: "lowpass sg g1 t = Inr (yn, g2)"
    and p: "play rd sg g2 xs = Inr (ys', ga')" and y: "ys = yn # ys'"
    by (auto split: sum.splits prod.splits)
  from comb_same [OF Cons.prems(2) c] obtain gb1 where
    cb: "comb rd gb x = Inr (t, gb1)" and s1: "same_comb g1 gb1" and l1: "same_lowpass g1 ga"
    by blast
  have "same_lowpass g1 gc"
    using l1 Cons.prems(3) by (rule same_lowpass_trans)
  from lowpass_same [OF this l] obtain gc1 where
    lc: "lowpass sg gc t = Inr (yn, gc1)" and l2: "same_lowpass g2 gc1"
    and s2: "same_comb g2 g1"
    by blast
  have "same_comb g2 gb1"
    using s2 s1 by (rule same_comb_trans)
  from Cons.IH [OF p this l2] obtain ts gb' gc' where
    "combs rd gb1 xs = Inr (ts, gb')" and "lowpasses sg gc1 ts = Inr (ys', gc')"
    and "length ts = length xs" and "same_comb ga' gb'" and "same_lowpass ga' gc'"
    by blast
  then have "combs rd gb (x # xs) = Inr (t # ts, gb')
      \<and> lowpasses sg gc (t # ts) = Inr (ys, gc')
      \<and> length (t # ts) = length (x # xs) \<and> same_comb ga' gb' \<and> same_lowpass ga' gc'"
    using cb lc y by simp
  then show ?case
    by blast
qed

text \<open>And the other way round: when the comb stage returns and the lowpass stage
  returns on what it gives, \<open>play\<close> returns, with the output of the lowpass stage.\<close>

lemma play_join:
  "combs rd gb xs = Inr (ts, gb') \<Longrightarrow> lowpasses sg gc ts = Inr (ys, gc') \<Longrightarrow>
   same_comb ga gb \<Longrightarrow> same_lowpass ga gc \<Longrightarrow>
     \<exists>ga'. play rd sg ga xs = Inr (ys, ga') \<and> same_comb ga' gb' \<and> same_lowpass ga' gc'"
proof (induction xs arbitrary: ga gb gc ts ys)
  case Nil
  then show ?case by auto
next
  case (Cons x xs)
  from Cons.prems(1) obtain t gb1 ts' where
    cb: "comb rd gb x = Inr (t, gb1)" and cs: "combs rd gb1 xs = Inr (ts', gb')"
    and ts: "ts = t # ts'"
    by (auto split: sum.splits prod.splits)
  from Cons.prems(2) [unfolded ts] obtain yn gc1 ys' where
    lc: "lowpass sg gc t = Inr (yn, gc1)" and ls: "lowpasses sg gc1 ts' = Inr (ys', gc')"
    and ys: "ys = yn # ys'"
    by (auto split: sum.splits prod.splits)
  from comb_same [OF same_comb_sym [OF Cons.prems(3)] cb] obtain ga1 where
    ca: "comb rd ga x = Inr (t, ga1)" and s1: "same_comb gb1 ga1"
    and l1: "same_lowpass ga1 ga"
    by blast
  have "same_lowpass gc ga1"
    using same_lowpass_sym [OF same_lowpass_trans [OF l1 Cons.prems(4)]] .
  from lowpass_same [OF this lc] obtain ga2 where
    la: "lowpass sg ga1 t = Inr (yn, ga2)" and l2: "same_lowpass gc1 ga2"
    and s2: "same_comb ga2 ga1"
    by blast
  have "same_comb ga2 gb1"
    using s2 same_comb_sym [OF s1] by (rule same_comb_trans)
  from Cons.IH [OF cs ls this same_lowpass_sym [OF l2]] obtain ga' where
    "play rd sg ga2 xs = Inr (ys', ga')" and "same_comb ga' gb'" and "same_lowpass ga' gc'"
    by blast
  then have "play rd sg ga (x # xs) = Inr (ys, ga') \<and> same_comb ga' gb' \<and> same_lowpass ga' gc'"
    using ca la ys by simp
  then show ?case
    by blast
qed

lemma example_combs:
  "combs exact \<lparr>g_M = 2, g_R = Num (9999 / 10000), g_RM = Num (99980001 / 100000000),
          g_ybuf = [Num 0, Num 0], g_iy = 0, g_xbuf = Num 0, g_bfb = [Num 1000],
          g_bfa = [Num 1], g_bfs = []\<rparr> [Num 1, Num 0, Num 0] =
     Inr ([Num 1, Num (- (9999 / 10000)), Num (99980001 / 100000000)],
          \<lparr>g_M = 2, g_R = Num (9999 / 10000), g_RM = Num (99980001 / 100000000),
           g_ybuf = [Num (99980001 / 100000000), Num (- (9999 / 10000))], g_iy = 1,
           g_xbuf = Num 0, g_bfb = [Num 1000], g_bfa = [Num 1], g_bfs = []\<rparr>)"
  by (simp add: model_defs)

lemma example_lowpasses:
  "lowpasses (direct_form exact [Num 1] [Num 1]) \<lparr>g_M = 2, g_R = Num (9999 / 10000), g_RM = Num (99980001 / 100000000),
          g_ybuf = [Num 0, Num 0], g_iy = 0, g_xbuf = Num 0, g_bfb = [Num 1000],
          g_bfa = [Num 1], g_bfs = []\<rparr>
       [Num 1, Num (- (9999 / 10000)), Num (99980001 / 100000000)] =
     Inr ([Num 1000, Num (- (9999 / 10)), Num (99980001 / 100000)], \<lparr>g_M = 2, g_R = Num (9999 / 10000), g_RM = Num (99980001 / 100000000),
          g_ybuf = [Num 0, Num 0], g_iy = 0, g_xbuf = Num 0, g_bfb = [Num 1000],
          g_bfa = [Num 1], g_bfs = []\<rparr>)"
  by (simp add: model_defs)

lemma combs_empty_buffer: "g_ybuf g = [] \<Longrightarrow> combs rd g (xn # xs) = Inl IndexError"
  by (simp add: comb_empty)

text \<open>
  Claim C4, as the code has it. A constructed guitar has the period
  \<open>M = int(np.round(fs / pitch))\<close> (ties to even), which is not negative, the decay
  \<open>R\<close>, the float of the literal \<open>0.9999\<close>, and \<open>RM = R ** M\<close>. With \<open>M \<ge> 1\<close>, the comb stage over any input
  \<open>x\<close> gives the outputs \<open>t\<close> with \<open>t[n] = x[n] - R * x[n - 1] + RM * t[n - M]\<close>,
  computed by the floats in this order, where \<open>t[n - M]\<close> is zero for \<open>n < M\<close> and
  \<open>x[-1]\<close> is zero; after it the write index is \<open>length x mod M\<close> and the stored
  previous input is the last sample. \<open>play\<close> returns exactly when the lowpass stage
  returns on these \<open>t\<close>, with the output of the lowpass stage and the comb fields as the
  comb stage leaves them, and it does return when the lowpass never fails. One call
  reads the slot at the write index, stores its output there, advances the index modulo
  \<open>M\<close> and keeps the input. With \<open>M = 0\<close> the buffer is empty and every call on at
  least one sample raises IndexError at the read.
\<close>

theorem comb_recurrence:
  assumes "guitar_init rd sg pitch fs = Inr g0"
  shows "py_int (np_round (fdiv rd (Num fs) (Num pitch))) = Inr (g_M g0) \<and> 0 \<le> g_M g0
     \<and> g_R g0 = rd (9999 / 10000)
     \<and> py_pow rd (g_R g0) (g_M g0) = Inr (g_RM g0)
     \<and> (1 \<le> g_M g0 \<longrightarrow>
          (\<exists>ts gc.
              combs rd g0 xs = Inr (ts, gc) \<and> length ts = length xs
              \<and> (\<forall>n < length xs.
                    ts ! n = fadd rd (fsub rd (xs ! n)
                                     (fmul rd (g_R g0) (if 0 < n then xs ! (n - 1) else Num 0)))
                            (fmul rd (g_RM g0)
                               (if nat (g_M g0) \<le> n then ts ! (n - nat (g_M g0)) else Num 0)))
              \<and> g_iy gc = int (length xs mod nat (g_M g0))
              \<and> g_xbuf gc = (if xs = [] then Num 0 else last xs)
              \<and> (\<forall>ys g. play rd sg g0 xs = Inr (ys, g) \<longleftrightarrow>
                    (\<exists>gl. lowpasses sg g0 ts = Inr (ys, gl) \<and> same_lowpass g gl
                       \<and> same_comb g gc)))
          \<and> (lowpass_closed sg (g_bfb g0) (g_bfa g0) I \<and> I (g_bfs g0) \<longrightarrow>
               (\<exists>ys g. play rd sg g0 xs = Inr (ys, g) \<and> length ys = length xs)))
     \<and> (g_M g0 = 0 \<longrightarrow>
          (\<forall>xn xs. combs rd g0 (xn # xs) = Inl IndexError
             \<and> play rd sg g0 (xn # xs) = Inl IndexError))
     \<and> (\<forall>g x. guitar_inv g \<longrightarrow>
           (\<exists>g'. comb rd g x =
                    Inr (fadd rd (fsub rd x (fmul rd (g_R g) (g_xbuf g)))
                           (fmul rd (g_RM g) (g_ybuf g ! nat (g_iy g))), g')
              \<and> g_ybuf g' = (g_ybuf g)[nat (g_iy g) :=
                    fadd rd (fsub rd x (fmul rd (g_R g) (g_xbuf g)))
                           (fmul rd (g_RM g) (g_ybuf g ! nat (g_iy g)))]
              \<and> g_iy g' = (g_iy g + 1) mod g_M g \<and> g_xbuf g' = x))"
proof -
  note i = guitar_init_eq [OF assms]
  have a: "py_int (np_round (fdiv rd (Num fs) (Num pitch))) = Inr (g_M g0)" "0 \<le> g_M g0"
    "g_R g0 = rd (9999 / 10000)" "py_pow rd (g_R g0) (g_M g0) = Inr (g_RM g0)"
    using i by blast+
  have b: "\<exists>ts gc.
              combs rd g0 xs = Inr (ts, gc) \<and> length ts = length xs
              \<and> (\<forall>n < length xs.
                    ts ! n = fadd rd (fsub rd (xs ! n)
                                     (fmul rd (g_R g0) (if 0 < n then xs ! (n - 1) else Num 0)))
                            (fmul rd (g_RM g0)
                               (if nat (g_M g0) \<le> n then ts ! (n - nat (g_M g0)) else Num 0)))
              \<and> g_iy gc = int (length xs mod nat (g_M g0))
              \<and> g_xbuf gc = (if xs = [] then Num 0 else last xs)
              \<and> (\<forall>ys g. play rd sg g0 xs = Inr (ys, g) \<longleftrightarrow>
                    (\<exists>gl. lowpasses sg g0 ts = Inr (ys, gl) \<and> same_lowpass g gl
                       \<and> same_comb g gc))"
    if m: "1 \<le> g_M g0"
  proof -
    from combs_recurrence [of g0 rd xs] i m obtain ts gc where
      c: "combs rd g0 xs = Inr (ts, gc)" and len: "length ts = length xs"
      and iy: "g_iy gc = int (length xs mod nat (g_M g0))"
      and xb: "g_xbuf gc = (if xs = [] then Num 0 else last xs)"
      and rec: "\<forall>n < length xs.
                    ts ! n = fadd rd (fsub rd (xs ! n)
                                     (fmul rd (g_R g0) (if 0 < n then xs ! (n - 1) else Num 0)))
                            (fmul rd (g_RM g0)
                               (if nat (g_M g0) \<le> n then ts ! (n - nat (g_M g0)) else Num 0))"
      by blast
    have p: "\<exists>gl. lowpasses sg g0 ts = Inr (ys, gl) \<and> same_lowpass g gl \<and> same_comb g gc"
      if "play rd sg g0 xs = Inr (ys, g)" for ys g
      using play_split [OF that same_comb_refl same_lowpass_refl] c by auto
    have q: "play rd sg g0 xs = Inr (ys, g)"
      if l: "lowpasses sg g0 ts = Inr (ys, gl)" and sl: "same_lowpass g gl"
        and sc: "same_comb g gc" for ys g gl
    proof -
      from play_join [OF c l same_comb_refl same_lowpass_refl] obtain g' where
        r: "play rd sg g0 xs = Inr (ys, g')" and s1: "same_comb g' gc"
        and s2: "same_lowpass g' gl"
        by blast
      have "g' = g"
        using s1 s2 sc sl by (rule same_fields)
      then show ?thesis
        using r by simp
    qed
    have "\<forall>ys g. play rd sg g0 xs = Inr (ys, g) \<longleftrightarrow>
                    (\<exists>gl. lowpasses sg g0 ts = Inr (ys, gl) \<and> same_lowpass g gl
                       \<and> same_comb g gc)"
      using p q by blast
    then show ?thesis
      using c len rec iy xb by blast
  qed
  have e: "\<exists>ys g. play rd sg g0 xs = Inr (ys, g) \<and> length ys = length xs"
    if m: "1 \<le> g_M g0" and "lowpass_closed sg (g_bfb g0) (g_bfa g0) I" and "I (g_bfs g0)"
  proof -
    have "guitar_inv g0"
      using assms m by (rule guitar_init_inv)
    then show ?thesis
      using play_ok [OF _ that(2,3), of rd xs] by blast
  qed
  have z: "\<forall>xn xs. combs rd g0 (xn # xs) = Inl IndexError
             \<and> play rd sg g0 (xn # xs) = Inl IndexError"
    if "g_M g0 = 0"
  proof -
    have "g_ybuf g0 = []"
      using i that by simp
    then show ?thesis
      using combs_empty_buffer play_empty_buffer [OF assms that] by blast
  qed
  have d: "\<exists>g'. comb rd g x =
                    Inr (fadd rd (fsub rd x (fmul rd (g_R g) (g_xbuf g)))
                           (fmul rd (g_RM g) (g_ybuf g ! nat (g_iy g))), g')
              \<and> g_ybuf g' = (g_ybuf g)[nat (g_iy g) :=
                    fadd rd (fsub rd x (fmul rd (g_R g) (g_xbuf g)))
                           (fmul rd (g_RM g) (g_ybuf g ! nat (g_iy g)))]
              \<and> g_iy g' = (g_iy g + 1) mod g_M g \<and> g_xbuf g' = x"
    if "guitar_inv g" for g x
    using comb_ok [OF that, of rd x] by simp
  show ?thesis
    using a b e z d by blast
qed

theorem comb_recurrence_witness:
  "guitar_init exact (direct_form exact [Num 1] [Num 1]) 12000 24000 =
     Inr \<lparr>g_M = 2, g_R = Num (9999 / 10000), g_RM = Num (99980001 / 100000000),
          g_ybuf = [Num 0, Num 0], g_iy = 0, g_xbuf = Num 0, g_bfb = [Num 1000],
          g_bfa = [Num 1], g_bfs = []\<rparr>
   \<and> py_int (np_round (fdiv exact (Num 24000) (Num 12000))) = Inr 2
   \<and> py_pow exact (Num (9999 / 10000)) 2 = Inr (Num (99980001 / 100000000))
   \<and> combs exact \<lparr>g_M = 2, g_R = Num (9999 / 10000), g_RM = Num (99980001 / 100000000),
          g_ybuf = [Num 0, Num 0], g_iy = 0, g_xbuf = Num 0, g_bfb = [Num 1000],
          g_bfa = [Num 1], g_bfs = []\<rparr> [Num 1, Num 0, Num 0] =
       Inr ([Num 1, Num (- (9999 / 10000)), Num (99980001 / 100000000)],
            \<lparr>g_M = 2, g_R = Num (9999 / 10000), g_RM = Num (99980001 / 100000000),
           g_ybuf = [Num (99980001 / 100000000), Num (- (9999 / 10000))], g_iy = 1,
           g_xbuf = Num 0, g_bfb = [Num 1000], g_bfa = [Num 1], g_bfs = []\<rparr>)
   \<and> [Num 1, Num (- (9999 / 10000)), Num (99980001 / 100000000)] ! 2
       = fadd exact (fsub exact ([Num 1, Num 0, Num 0] ! 2)
                       (fmul exact (Num (9999 / 10000)) ([Num 1, Num 0, Num 0] ! 1)))
           (fmul exact (Num (99980001 / 100000000))
              ([Num 1, Num (- (9999 / 10000)), Num (99980001 / 100000000)] ! 0))
   \<and> play exact (direct_form exact [Num 1] [Num 1]) \<lparr>g_M = 2, g_R = Num (9999 / 10000), g_RM = Num (99980001 / 100000000),
          g_ybuf = [Num 0, Num 0], g_iy = 0, g_xbuf = Num 0, g_bfb = [Num 1000],
          g_bfa = [Num 1], g_bfs = []\<rparr> [Num 1, Num 0, Num 0] =
       Inr ([Num 1000, Num (- (9999 / 10)), Num (99980001 / 100000)],
            \<lparr>g_M = 2, g_R = Num (9999 / 10000), g_RM = Num (99980001 / 100000000),
           g_ybuf = [Num (99980001 / 100000000), Num (- (9999 / 10000))], g_iy = 1,
           g_xbuf = Num 0, g_bfb = [Num 1000], g_bfa = [Num 1], g_bfs = []\<rparr>)
   \<and> (\<exists>ys g. play exact (direct_form exact [Num 1] [Num 1]) \<lparr>g_M = 2, g_R = Num (9999 / 10000), g_RM = Num (99980001 / 100000000),
          g_ybuf = [Num 0, Num 0], g_iy = 0, g_xbuf = Num 0, g_bfb = [Num 1000],
          g_bfa = [Num 1], g_bfs = []\<rparr> [Num 1, Num 0, Num 0] = Inr (ys, g)
         \<and> length ys = length [Num 1, Num 0, Num 0])
   \<and> guitar_init exact (direct_form exact [Num 1] [Num 1]) 110 24 =
       Inr \<lparr>g_M = 0, g_R = Num (9999 / 10000), g_RM = Num 1, g_ybuf = [], g_iy = 0,
          g_xbuf = Num 0, g_bfb = [Num 1000], g_bfa = [Num 1], g_bfs = []\<rparr>
   \<and> play exact (direct_form exact [Num 1] [Num 1]) \<lparr>g_M = 0, g_R = Num (9999 / 10000), g_RM = Num 1, g_ybuf = [], g_iy = 0,
          g_xbuf = Num 0, g_bfb = [Num 1000], g_bfa = [Num 1], g_bfs = []\<rparr> [Num 1] = Inl IndexError"
proof -
  let ?g0 = "\<lparr>g_M = 2, g_R = Num (9999 / 10000), g_RM = Num (99980001 / 100000000),
          g_ybuf = [Num 0, Num 0], g_iy = 0, g_xbuf = Num 0, g_bfb = [Num 1000],
          g_bfa = [Num 1], g_bfs = []\<rparr>"
  let ?g1 = "\<lparr>g_M = 2, g_R = Num (9999 / 10000), g_RM = Num (99980001 / 100000000),
           g_ybuf = [Num (99980001 / 100000000), Num (- (9999 / 10000))], g_iy = 1,
           g_xbuf = Num 0, g_bfb = [Num 1000], g_bfa = [Num 1], g_bfs = []\<rparr>"
  let ?gz = "\<lparr>g_M = 0, g_R = Num (9999 / 10000), g_RM = Num 1, g_ybuf = [], g_iy = 0,
          g_xbuf = Num 0, g_bfb = [Num 1000], g_bfa = [Num 1], g_bfs = []\<rparr>"
  let ?xs = "[Num 1, Num 0, Num 0]"
  let ?ts = "[Num 1, Num (- (9999 / 10000)), Num (99980001 / 100000000)]"
  let ?ys = "[Num 1000, Num (- (9999 / 10)), Num (99980001 / 100000)]"
  let ?I = "\<lambda>z :: float64 list. Suc (length z) = length [Num 1000]"
  note t = comb_recurrence [OF example_guitar_init, of ?xs ?I]
  have m: "1 \<le> g_M ?g0"
    by simp
  have a: "py_int (np_round (fdiv exact (Num 24000) (Num 12000))) = Inr 2"
    "py_pow exact (Num (9999 / 10000)) 2 = Inr (Num (99980001 / 100000000))"
    using t [THEN conjunct1]
      t [THEN conjunct2, THEN conjunct2, THEN conjunct2, THEN conjunct1]
    by simp_all
  note tm = t [THEN conjunct2, THEN conjunct2, THEN conjunct2, THEN conjunct2, THEN conjunct1,
      THEN mp, OF m]
  from tm [THEN conjunct1] obtain ts gc where c: "combs exact ?g0 ?xs = Inr (ts, gc)"
    and rec: "\<forall>n < length ?xs.
        ts ! n = fadd exact (fsub exact (?xs ! n)
                    (fmul exact (g_R ?g0) (if 0 < n then ?xs ! (n - 1) else Num 0)))
                   (fmul exact (g_RM ?g0)
                      (if nat (g_M ?g0) \<le> n then ts ! (n - nat (g_M ?g0)) else Num 0))"
    and pl: "\<forall>ys g. play exact (direct_form exact [Num 1] [Num 1]) ?g0 ?xs = Inr (ys, g) \<longleftrightarrow>
                    (\<exists>gl. lowpasses (direct_form exact [Num 1] [Num 1]) ?g0 ts = Inr (ys, gl) \<and> same_lowpass g gl
                       \<and> same_comb g gc)"
    by blast
  have ts: "ts = ?ts" and gc: "gc = ?g1"
    using c example_combs by simp_all
  have r: "?ts ! 2
       = fadd exact (fsub exact (?xs ! 2) (fmul exact (Num (9999 / 10000)) (?xs ! 1)))
           (fmul exact (Num (99980001 / 100000000)) (?ts ! 0))"
    using rec [rule_format, of 2] unfolding ts by (simp add: exact_def)
  have "\<exists>gl. lowpasses (direct_form exact [Num 1] [Num 1]) ?g0 ?ts = Inr (?ys, gl) \<and> same_lowpass ?g1 gl \<and> same_comb ?g1 ?g1"
    using example_lowpasses by (simp add: same_lowpass_def same_comb_def)
  then have p: "play exact (direct_form exact [Num 1] [Num 1]) ?g0 ?xs = Inr (?ys, ?g1)"
    using pl unfolding ts gc by blast
  have cl: "lowpass_closed (direct_form exact [Num 1] [Num 1]) (g_bfb ?g0) (g_bfa ?g0) ?I"
    using direct_form_closed [of "[Num 1]" "[Num 1000]" exact "[Num 1]" "[Num 1]"] by simp
  have ib: "?I (g_bfs ?g0)"
    by simp
  have e: "\<exists>ys g. play exact (direct_form exact [Num 1] [Num 1]) ?g0 ?xs = Inr (ys, g) \<and> length ys = length ?xs"
    using tm [THEN conjunct2, THEN mp, OF conjI [OF cl ib]] .
  have mz: "g_M ?gz = 0"
    by simp
  note tz = comb_recurrence [OF example_empty_guitar, THEN conjunct2, THEN conjunct2,
      THEN conjunct2, THEN conjunct2, THEN conjunct2, THEN conjunct1, THEN mp, OF mz]
  have z: "play exact (direct_form exact [Num 1] [Num 1]) ?gz [Num 1] = Inl IndexError"
    using tz by blast
  show ?thesis
    using example_guitar_init a example_combs r p e example_empty_guitar z by blast
qed

text \<open>At a pitch of 110 and a rate of 24 the period is 0: the guitar is constructed,
  and playing one sample raises IndexError in the comb stage.\<close>

theorem comb_empty_counterexample:
  "guitar_init exact (direct_form exact [Num 1] [Num 1]) 110 24 =
     Inr \<lparr>g_M = 0, g_R = Num (9999 / 10000), g_RM = Num 1, g_ybuf = [], g_iy = 0,
          g_xbuf = Num 0, g_bfb = [Num 1000], g_bfa = [Num 1], g_bfs = []\<rparr>
   \<and> comb exact \<lparr>g_M = 0, g_R = Num (9999 / 10000), g_RM = Num 1, g_ybuf = [], g_iy = 0,
          g_xbuf = Num 0, g_bfb = [Num 1000], g_bfa = [Num 1], g_bfs = []\<rparr> (Num 1) = Inl IndexError
   \<and> play exact (direct_form exact [Num 1] [Num 1]) \<lparr>g_M = 0, g_R = Num (9999 / 10000), g_RM = Num 1, g_ybuf = [], g_iy = 0,
          g_xbuf = Num 0, g_bfb = [Num 1000], g_bfa = [Num 1], g_bfs = []\<rparr> [Num 1] = Inl IndexError"
  using example_empty_guitar by (simp add: comb_empty)

end
